theory Spec2Isabelle
  imports Main "HOL-Library.Word" "HOL-Library.Sublist"
begin

section \<open>JavaScript values\<close>

text \<open>
  A JavaScript string is a sequence of 16-bit code units. The values that reach
  \<^verbatim>\<open>server/letta-sdk.js\<close> arrive as parsed JSON (client messages) or from the
  session SDK: \<^verbatim>\<open>undefined\<close>, \<^verbatim>\<open>null\<close>, booleans, numbers, strings, arrays
  and plain objects. Numbers are represented by the integers and \<^verbatim>\<open>NaN\<close>; only their
  truthiness and identity are ever inspected by this module. Arrays and objects
  carry the reference that \<^verbatim>\<open>===\<close> compares.
\<close>

type_synonym jsstring = "16 word list"

definition str :: "string \<Rightarrow> jsstring" where
  "str s = map (\<lambda>c. word_of_nat (of_char c)) s"

datatype jsval =
    JUndefined
  | JNull
  | JBool bool
  | JNum int
  | JNaN
  | JStr jsstring
  | JArr nat "jsval list"
  | JObj nat "(jsstring \<times> jsval) list"

text \<open>What the runtime throws: a \<^verbatim>\<open>TypeError\<close> of its own (calling a non-function,
  reading a property of \<^verbatim>\<open>null\<close>), an \<^verbatim>\<open>Error\<close> instance with its
  \<^verbatim>\<open>message\<close>, or any other thrown value.\<close>

datatype thrown = TypeError | ErrorInstance jsval | NonError jsval

text \<open>\<^verbatim>\<open>!x\<close> is \<open>\<not> truthy x\<close>; \<^verbatim>\<open>Boolean(x)\<close> is \<open>truthy x\<close>.\<close>

fun truthy :: "jsval \<Rightarrow> bool" where
  "truthy JUndefined = False"
| "truthy JNull = False"
| "truthy (JBool b) = b"
| "truthy (JNum n) = (n \<noteq> 0)"
| "truthy JNaN = False"
| "truthy (JStr s) = (s \<noteq> [])"
| "truthy (JArr r xs) = True"
| "truthy (JObj r fs) = True"

fun typeof :: "jsval \<Rightarrow> string" where
  "typeof JUndefined = ''undefined''"
| "typeof JNull = ''object''"
| "typeof (JBool b) = ''boolean''"
| "typeof (JNum n) = ''number''"
| "typeof JNaN = ''number''"
| "typeof (JStr s) = ''string''"
| "typeof (JArr r xs) = ''object''"
| "typeof (JObj r fs) = ''object''"

text \<open>\<^verbatim>\<open>a === b\<close>: primitives by value (\<^verbatim>\<open>NaN\<close> equals nothing), arrays and
  objects by reference.\<close>

definition strictEq :: "jsval \<Rightarrow> jsval \<Rightarrow> bool" where
  "strictEq a b =
     (case a of
        JNaN \<Rightarrow> False
      | JArr r xs \<Rightarrow> (case b of JArr r' ys \<Rightarrow> r = r' | _ \<Rightarrow> False)
      | JObj r fs \<Rightarrow> (case b of JObj r' gs \<Rightarrow> r = r' | _ \<Rightarrow> False)
      | _ \<Rightarrow> a = b)"

text \<open>\<^verbatim>\<open>v.key\<close> on a value that is neither \<^verbatim>\<open>undefined\<close> nor \<^verbatim>\<open>null\<close>, for
  the keys this module reads (\<^verbatim>\<open>command\<close>, \<^verbatim>\<open>allow\<close>, \<^verbatim>\<open>type\<close>, ...), none of
  which is defined on a built-in prototype: an own property of a plain object,
  \<^verbatim>\<open>undefined\<close> otherwise.\<close>

fun propOf :: "jsval \<Rightarrow> string \<Rightarrow> jsval" where
  "propOf (JObj r fs) k = (case map_of fs (str k) of Some v \<Rightarrow> v | None \<Rightarrow> JUndefined)"
| "propOf v k = JUndefined"

text \<open>\<^verbatim>\<open>v.key\<close> in general: reading a property of \<^verbatim>\<open>undefined\<close> or \<^verbatim>\<open>null\<close>
  throws a \<^verbatim>\<open>TypeError\<close>.\<close>

fun getProp :: "jsval \<Rightarrow> string \<Rightarrow> thrown + jsval" where
  "getProp JUndefined k = Inl TypeError"
| "getProp JNull k = Inl TypeError"
| "getProp v k = Inr (propOf v k)"

text \<open>\<^verbatim>\<open>a ?? b\<close>\<close>

fun nullish :: "jsval \<Rightarrow> jsval \<Rightarrow> jsval" where
  "nullish JUndefined d = d"
| "nullish JNull d = d"
| "nullish v d = v"

subsection \<open>String methods\<close>

text \<open>\<^verbatim>\<open>String.prototype.trim\<close> strips the code units of WhiteSpace and
  LineTerminator from both ends.\<close>

definition isWhiteSpace :: "16 word \<Rightarrow> bool" where
  "isWhiteSpace c =
     (c = 0x9 \<or> c = 0xA \<or> c = 0xB \<or> c = 0xC \<or> c = 0xD \<or> c = 0x20 \<or> c = 0xA0
      \<or> c = 0x1680 \<or> (0x2000 \<le> c \<and> c \<le> 0x200A) \<or> c = 0x2028 \<or> c = 0x2029
      \<or> c = 0x202F \<or> c = 0x205F \<or> c = 0x3000 \<or> c = 0xFEFF)"

definition trim :: "jsstring \<Rightarrow> jsstring" where
  "trim s = rev (dropWhile isWhiteSpace (rev (dropWhile isWhiteSpace s)))"

text \<open>\<^verbatim>\<open>s.startsWith(p)\<close>\<close>

definition startsWith :: "jsstring \<Rightarrow> jsstring \<Rightarrow> bool" where
  "startsWith s p = (take (length p) s = p)"

section \<open>Permission Matcher\<close>

text \<open>
  \<^verbatim>\<open>entry.match(/^Bash\((.+):\*\)$/)\<close>. In a regular expression without flags
  \<^verbatim>\<open>.\<close> is any code unit but a line terminator, \<^verbatim>\<open>+\<close> is greedy, \<^verbatim>\<open>$\<close> is the
  end of the input. \<open>dotPlusThen lit acc s\<close> runs the group \<^verbatim>\<open>(.+)\<close> with \<open>acc\<close>
  already captured: it takes one more code unit, first tries to take still more, and
  on failure tries the rest of the pattern, the literal \<open>lit\<close> up to the end.
\<close>

definition lineTerminator :: "16 word \<Rightarrow> bool" where
  "lineTerminator c = (c = 0xA \<or> c = 0xD \<or> c = 0x2028 \<or> c = 0x2029)"

fun dotPlusThen :: "jsstring \<Rightarrow> jsstring \<Rightarrow> jsstring \<Rightarrow> jsstring option" where
  "dotPlusThen lit acc [] = None"
| "dotPlusThen lit acc (c # cs) =
     (if lineTerminator c then None
      else (case dotPlusThen lit (acc @ [c]) cs of
              Some p \<Rightarrow> Some p
            | None \<Rightarrow> if cs = lit then Some (acc @ [c]) else None))"

text \<open>The capture group of the match, or \<open>None\<close> for \<^verbatim>\<open>null\<close>.\<close>

definition bashMatch :: "jsstring \<Rightarrow> jsstring option" where
  "bashMatch entry =
     (if startsWith entry (str ''Bash('')
      then dotPlusThen (str '':*)'') [] (drop 5 entry)
      else None)"

text \<open>
  \<^verbatim>\<open>
  function matchesToolPermission(entry, toolName, input) {
    if (!entry || !toolName) { return false; }
    if (entry === toolName) { return true; }
    const bashMatch = entry.match(/^Bash\((.+):\*\)$/);
    if (toolName === 'Bash' && bashMatch) {
      const allowedPrefix = bashMatch[1];
      let command = '';
      if (typeof input === 'string') { command = input.trim(); }
      else if (input && typeof input === 'object' && typeof input.command === 'string') {
        command = input.command.trim();
      }
      return command ? command.startsWith(allowedPrefix) : false;
    }
    return false;
  }
  \<close>
  Only strings have a \<^verbatim>\<open>match\<close> method: on any other truthy entry the call
  \<^verbatim>\<open>entry.match(...)\<close> throws a \<^verbatim>\<open>TypeError\<close>.
\<close>

definition commandOf :: "jsval \<Rightarrow> jsstring" where
  "commandOf input =
     (case input of
        JStr s \<Rightarrow> trim s
      | _ \<Rightarrow> if truthy input \<and> typeof input = ''object''
                 \<and> typeof (propOf input ''command'') = ''string''
             then (case propOf input ''command'' of JStr s \<Rightarrow> trim s | _ \<Rightarrow> [])
             else [])"

definition matchesToolPermission :: "jsval \<Rightarrow> jsval \<Rightarrow> jsval \<Rightarrow> thrown + bool" where
  "matchesToolPermission entry toolName input =
     (if \<not> truthy entry \<or> \<not> truthy toolName then Inr False
      else if strictEq entry toolName then Inr True
      else (case entry of
              JStr e \<Rightarrow>
                (case bashMatch e of
                   Some allowedPrefix \<Rightarrow>
                     if strictEq toolName (JStr (str ''Bash''))
                     then (let command = commandOf input
                           in Inr (if command \<noteq> [] then startsWith command allowedPrefix
                                   else False))
                     else Inr False
                 | None \<Rightarrow> Inr False)
            | _ \<Rightarrow> Inl TypeError))"

text \<open>\<^verbatim>\<open>entries.some((entry) => matchesToolPermission(entry, toolName, input))\<close>:
  left to right, stopping at the first match; an exception ends it.\<close>

fun someMatches :: "jsval list \<Rightarrow> jsval \<Rightarrow> jsval \<Rightarrow> thrown + bool" where
  "someMatches [] toolName input = Inr False"
| "someMatches (entry # entries) toolName input =
     (case matchesToolPermission entry toolName input of
        Inl x \<Rightarrow> Inl x
      | Inr True \<Rightarrow> Inr True
      | Inr False \<Rightarrow> someMatches entries toolName input)"

section \<open>Approval Gate\<close>

text \<open>
  \<^verbatim>\<open>
  const pendingToolApprovals = new Map();

  function waitForToolApproval(requestId, options = {}) {
    const { timeoutMs = TOOL_APPROVAL_TIMEOUT_MS, onCancel } = options;
    return new Promise((resolve) => {
      let settled = false;
      const finalize = (decision) => {
        if (settled) return;
        settled = true;
        pendingToolApprovals.delete(requestId);
        clearTimeout(timeout);
        resolve(decision);
      };
      const timeout = setTimeout(() => { onCancel?.('timeout'); finalize(null); }, timeoutMs);
      pendingToolApprovals.set(requestId, (decision) => finalize(decision));
    });
  }
  \<close>
  Every call creates one closure: its token, its \<^verbatim>\<open>onCancel\<close>, the flag
  \<^verbatim>\<open>settled\<close>, its timer and its promise. The closures are kept in a list, and the
  map \<^verbatim>\<open>pendingToolApprovals\<close> sends a token to the index of the closure whose
  resolver it holds. The callbacks of the event loop run one at a time, each to its
  end, so each is one state transition; the delay of the timer is not represented,
  only the order in which the callbacks run. An \<^verbatim>\<open>onCancel\<close> is a transformer of
  the rest of the program state \<open>'e\<close>: the one this module passes only sends a
  message.
\<close>

record 'e approval =
  requestId :: jsstring
  onCancel :: "(jsstring \<Rightarrow> 'e \<Rightarrow> 'e) option"
  settled :: bool
  timeout :: bool \<comment> \<open>the timer is armed: set, not yet fired, not cleared\<close>
  resolved :: "jsval option" \<comment> \<open>the value the promise was resolved with\<close>

record 'e state =
  pendingToolApprovals :: "jsstring \<rightharpoonup> nat"
  approvals :: "'e approval list"
  env :: 'e

definition finalize :: "nat \<Rightarrow> jsval \<Rightarrow> 'e state \<Rightarrow> 'e state" where
  "finalize k decision s =
     (let a = approvals s ! k
      in if settled a then s
         else s\<lparr>approvals := (approvals s)
                   [k := a\<lparr>settled := True, timeout := False, resolved := Some decision\<rparr>],
                pendingToolApprovals := (pendingToolApprovals s)(requestId a := None)\<rparr>)"

text \<open>The call returns the promise: the index of the new closure.\<close>

definition waitForToolApproval ::
  "jsstring \<Rightarrow> (jsstring \<Rightarrow> 'e \<Rightarrow> 'e) option \<Rightarrow> 'e state \<Rightarrow> nat \<times> 'e state" where
  "waitForToolApproval rid cancel s =
     (let k = length (approvals s)
      in (k, s\<lparr>approvals := approvals s @
                   [\<lparr>requestId = rid, onCancel = cancel, settled = False,
                     timeout = True, resolved = None\<rparr>],
                pendingToolApprovals := (pendingToolApprovals s)(rid \<mapsto> k)\<rparr>))"

text \<open>The body of the timer's callback: \<^verbatim>\<open>onCancel?.('timeout'); finalize(null);\<close>\<close>

definition cancelled :: "nat \<Rightarrow> 'e state \<Rightarrow> 'e state" where
  "cancelled k s =
     (case onCancel (approvals s ! k) of
        Some f \<Rightarrow> s\<lparr>env := f (str ''timeout'') (env s)\<rparr>
      | None \<Rightarrow> s)"

definition timeoutCallback :: "nat \<Rightarrow> 'e state \<Rightarrow> 'e state" where
  "timeoutCallback k s = finalize k JNull (cancelled k s)"

text \<open>
  \<^verbatim>\<open>
  export function resolveLettaToolApproval(requestId, decision) {
    const resolver = pendingToolApprovals.get(requestId);
    if (resolver) { resolver(decision); }
  }
  \<close>
  The keys of the map are strings, so no other value finds a resolver.
\<close>

definition resolveLettaToolApproval :: "jsval \<Rightarrow> jsval \<Rightarrow> 'e state \<Rightarrow> 'e state" where
  "resolveLettaToolApproval rid decision s =
     (case rid of
        JStr r \<Rightarrow>
          (case pendingToolApprovals s r of
             Some k \<Rightarrow> finalize k decision s
           | None \<Rightarrow> s)
      | _ \<Rightarrow> s)"

text \<open>What the event loop may run next: a call of \<^verbatim>\<open>waitForToolApproval\<close>, a call of
  \<^verbatim>\<open>resolveLettaToolApproval\<close>, or the callback of a timer. A timer fires at most
  once, and only while it is armed.\<close>

datatype 'e event =
    Wait jsstring "(jsstring \<Rightarrow> 'e \<Rightarrow> 'e) option"
  | Resolve jsval jsval
  | Timer nat

fun step :: "'e event \<Rightarrow> 'e state \<Rightarrow> 'e state" where
  "step (Wait rid cancel) s = snd (waitForToolApproval rid cancel s)"
| "step (Resolve rid decision) s = resolveLettaToolApproval rid decision s"
| "step (Timer k) s =
     (if k < length (approvals s) \<and> timeout (approvals s ! k)
      then timeoutCallback k
             (s\<lparr>approvals := (approvals s)[k := (approvals s ! k)\<lparr>timeout := False\<rparr>]\<rparr>)
      else s)"

fun run :: "'e event list \<Rightarrow> 'e state \<Rightarrow> 'e state" where
  "run [] s = s"
| "run (e # es) s = run es (step e s)"

definition initial :: "'e \<Rightarrow> 'e state" where
  "initial e = \<lparr>pendingToolApprovals = Map.empty, approvals = [], env = e\<rparr>"

text \<open>What holds of every state the event loop can reach: a token in the map leads
  to a closure with that token which has not settled, and a closure has settled
  exactly when its timer is no longer armed, and exactly when its promise is
  resolved.\<close>

definition gateInv :: "'e state \<Rightarrow> bool" where
  "gateInv s \<longleftrightarrow>
     (\<forall>r k. pendingToolApprovals s r = Some k \<longrightarrow>
        k < length (approvals s) \<and> requestId (approvals s ! k) = r \<and> \<not> settled (approvals s ! k)) \<and>
     (\<forall>k < length (approvals s).
        (settled (approvals s ! k) \<longleftrightarrow> \<not> timeout (approvals s ! k)) \<and>
        (settled (approvals s ! k) \<longleftrightarrow> resolved (approvals s ! k) \<noteq> None))"

section \<open>The dispatch: signals, tool policy, session registry\<close>

text \<open>The payloads handed to \<^verbatim>\<open>ws.send\<close>, one constructor for each value of their
  \<^verbatim>\<open>type\<close> field, with the fields that vary.\<close>

datatype errtext =
    Text jsval \<comment> \<open>\<^verbatim>\<open>err.message\<close> of an \<^verbatim>\<open>Error\<close>, or a literal\<close>
  | StringOf jsval \<comment> \<open>\<^verbatim>\<open>String(err)\<close> of any other thrown value\<close>
  | TypeErrorText \<comment> \<open>the message of a \<^verbatim>\<open>TypeError\<close> of the runtime\<close>

datatype content =
    StreamEvent jsval \<comment> \<open>\<^verbatim>\<open>msg.event\<close>\<close>
  | AssistantText jsval \<comment> \<open>\<^verbatim>\<open>msg.content\<close>\<close>
  | ToolUse jsval jsval jsval \<comment> \<open>\<^verbatim>\<open>toolCallId\<close>, \<^verbatim>\<open>toolName\<close>, \<^verbatim>\<open>toolInput\<close>\<close>
  | ToolResult jsval jsval bool \<comment> \<open>\<^verbatim>\<open>toolCallId\<close>, \<^verbatim>\<open>content\<close>, \<^verbatim>\<open>is_error\<close>\<close>

datatype signal =
    PermissionRequest jsstring jsval jsval jsval
      \<comment> \<open>\<^verbatim>\<open>claude-permission-request\<close>: requestId, toolName, input, sessionId\<close>
  | PermissionCancelled jsstring jsstring jsval
      \<comment> \<open>\<^verbatim>\<open>claude-permission-cancelled\<close>: requestId, reason, sessionId\<close>
  | SessionCreated jsval jsval
      \<comment> \<open>\<^verbatim>\<open>session-created\<close>: sessionId (also agentId), conversationId\<close>
  | LettaResponse content jsval
      \<comment> \<open>\<^verbatim>\<open>letta-response\<close>: data, sessionId\<close>
  | LettaComplete jsval int bool jsval jsval jsval
      \<comment> \<open>\<^verbatim>\<open>letta-complete\<close>: sessionId, exitCode, success, durationMs, totalCostUsd,
          conversationId\<close>
  | LettaError errtext jsval
      \<comment> \<open>\<^verbatim>\<open>letta-error\<close>: error, sessionId\<close>

text \<open>The calls made on the session SDK.\<close>

datatype sdkCall =
    CreateSession jsval jsval jsval \<comment> \<open>agent id, \<^verbatim>\<open>cwd\<close>, \<^verbatim>\<open>permissionMode\<close>\<close>
  | Initialize
  | Send jsstring
  | Stream

record policy =
  allowedTools :: "jsval list"
  disallowedTools :: "jsval list"
  skipPermissions :: bool

text \<open>
  What one call of \<^verbatim>\<open>queryLettaSDK\<close> and its closures read and write: the
  transport \<^verbatim>\<open>ws\<close> (the payloads passed to \<^verbatim>\<open>ws.send\<close>, oldest first, and the
  identity given to \<^verbatim>\<open>ws.setSessionId\<close>), the variables \<^verbatim>\<open>toolsSettings\<close>,
  \<^verbatim>\<open>permissionMode\<close>, \<^verbatim>\<open>requestedAgentId\<close> and \<^verbatim>\<open>agentId\<close>, the module's
  map \<^verbatim>\<open>activeSessions\<close> (keys in insertion order, each with its
  \<^verbatim>\<open>startTime\<close>), and the calls made on the SDK.
\<close>

record dispatch =
  sent :: "signal list"
  boundSessionId :: "jsval option"
  toolsSettings :: policy
  permissionMode :: jsval
  requestedAgentId :: jsval
  agentId :: jsval
  activeSessions :: "(jsval \<times> nat) list"
  sdkCalls :: "sdkCall list"

text \<open>\<^verbatim>\<open>function emit(ws, payload) { try { ws.send(payload); } catch { } }\<close>: a failure
  of the transport changes nothing else.\<close>

definition emit :: "signal \<Rightarrow> dispatch \<Rightarrow> dispatch" where
  "emit payload d = d\<lparr>sent := sent d @ [payload]\<rparr>"

text \<open>\<^verbatim>\<open>a || b\<close>\<close>

definition jsOr :: "jsval \<Rightarrow> jsval \<Rightarrow> jsval" where
  "jsOr a b = (if truthy a then a else b)"

text \<open>The comparison of \<^verbatim>\<open>Map\<close> keys and of \<^verbatim>\<open>Array.prototype.includes\<close>.\<close>

definition sameValueZero :: "jsval \<Rightarrow> jsval \<Rightarrow> bool" where
  "sameValueZero a b = (strictEq a b \<or> (a = JNaN \<and> b = JNaN))"

definition arrayIncludes :: "jsval list \<Rightarrow> jsval \<Rightarrow> bool" where
  "arrayIncludes xs v = list_ex (\<lambda>x. sameValueZero x v) xs"

fun mapSet :: "jsval \<Rightarrow> 'v \<Rightarrow> (jsval \<times> 'v) list \<Rightarrow> (jsval \<times> 'v) list" where
  "mapSet k v [] = [(k, v)]"
| "mapSet k v ((k', v') # m) =
     (if sameValueZero k' k then (k', v) # m else (k', v') # mapSet k v m)"

text \<open>\<^verbatim>\<open>export function isLettaSDKSessionActive(agentId) { return activeSessions.has(agentId); }\<close>\<close>

definition isLettaSDKSessionActive :: "jsval \<Rightarrow> dispatch \<Rightarrow> bool" where
  "isLettaSDKSessionActive a d = list_ex (\<lambda>(k, v). sameValueZero k a) (activeSessions d)"

text \<open>The object \<^verbatim>\<open>{}\<close> of a default parameter or of \<^verbatim>\<open>x || {}\<close>; nothing
  compares it with another object.\<close>

definition emptyObject :: jsval where
  "emptyObject = JObj 0 []"

text \<open>\<^verbatim>\<open>function f(options = {})\<close>\<close>

definition orDefault :: "jsval \<Rightarrow> jsval" where
  "orDefault options = (if options = JUndefined then emptyObject else options)"

text \<open>
  \<^verbatim>\<open>
  function normalizeCwd(options = {}) {
    return options.cwd || options.projectPath || process.cwd();
  }
  \<close>
  The second argument is the value of \<^verbatim>\<open>process.cwd()\<close>.
\<close>

definition normalizeCwd :: "jsval \<Rightarrow> jsval \<Rightarrow> thrown + jsval" where
  "normalizeCwd options0 processCwd =
     (let options = orDefault options0
      in case getProp options ''cwd'' of
           Inl x \<Rightarrow> Inl x
         | Inr cwd \<Rightarrow> Inr (jsOr (jsOr cwd (propOf options ''projectPath'')) processCwd))"

text \<open>
  \<^verbatim>\<open>
  function normalizeToolsSettings(options = {}) {
    const toolsSettings = options.toolsSettings || {};
    return {
      allowedTools: Array.isArray(toolsSettings.allowedTools) ? toolsSettings.allowedTools : [],
      disallowedTools: Array.isArray(toolsSettings.disallowedTools)
        ? toolsSettings.disallowedTools : [],
      skipPermissions: Boolean(toolsSettings.skipPermissions),
    };
  }
  \<close>
\<close>

definition arrayOrEmpty :: "jsval \<Rightarrow> jsval list" where
  "arrayOrEmpty v = (case v of JArr r xs \<Rightarrow> xs | _ \<Rightarrow> [])"

definition normalizeToolsSettings :: "jsval \<Rightarrow> thrown + policy" where
  "normalizeToolsSettings options0 =
     (let options = orDefault options0
      in case getProp options ''toolsSettings'' of
           Inl x \<Rightarrow> Inl x
         | Inr v \<Rightarrow>
             (let ts = jsOr v emptyObject
              in Inr \<lparr>allowedTools = arrayOrEmpty (propOf ts ''allowedTools''),
                      disallowedTools = arrayOrEmpty (propOf ts ''disallowedTools''),
                      skipPermissions = truthy (propOf ts ''skipPermissions'')\<rparr>))"

section \<open>Authorization callback\<close>

text \<open>
  \<^verbatim>\<open>canUseTool: async (toolName, input) => { ... }\<close> runs in two parts. The first
  runs up to the \<^verbatim>\<open>await\<close>: it returns a decision at once, or emits the request and
  suspends on the promise of \<^verbatim>\<open>waitForToolApproval\<close>. The second runs when that
  promise is resolved, with its value. The first argument is the token that
  \<^verbatim>\<open>createRequestId()\<close> returns (\<^verbatim>\<open>letta_\<close> and a random UUID).
\<close>

datatype permission =
    Allow jsval \<comment> \<open>\<^verbatim>\<open>{ behavior: 'allow', updatedInput }\<close>\<close>
  | Deny jsval \<comment> \<open>\<^verbatim>\<open>{ behavior: 'deny', message }\<close>\<close>

datatype verdict = Decided permission | Awaiting nat

text \<open>The \<^verbatim>\<open>onCancel\<close> that \<^verbatim>\<open>canUseTool\<close> passes; \<^verbatim>\<open>agentId\<close> is read when it runs.\<close>

definition notifyCancelled :: "jsstring \<Rightarrow> jsstring \<Rightarrow> dispatch \<Rightarrow> dispatch" where
  "notifyCancelled rid reason d =
     emit (PermissionCancelled rid reason (jsOr (agentId d) (requestedAgentId d))) d"

definition canUseTool ::
  "jsstring \<Rightarrow> jsval \<Rightarrow> jsval \<Rightarrow> dispatch state \<Rightarrow> thrown + verdict \<times> dispatch state" where
  "canUseTool rid toolName input s =
     (let d = env s
      in if strictEq (permissionMode d) (JStr (str ''bypassPermissions''))
            \<or> skipPermissions (toolsSettings d)
         then Inr (Decided (Allow JNull), s)
         else
           (case someMatches (disallowedTools (toolsSettings d)) toolName input of
              Inl x \<Rightarrow> Inl x
            | Inr True \<Rightarrow> Inr (Decided (Deny (JStr (str ''Tool disallowed by settings''))), s)
            | Inr False \<Rightarrow>
                (case someMatches (allowedTools (toolsSettings d)) toolName input of
                   Inl x \<Rightarrow> Inl x
                 | Inr True \<Rightarrow> Inr (Decided (Allow JNull), s)
                 | Inr False \<Rightarrow>
                     (let s1 = s\<lparr>env := emit (PermissionRequest rid toolName input
                                                 (jsOr (agentId d) (requestedAgentId d))) d\<rparr>;
                          (k, s2) = waitForToolApproval rid (Some (notifyCancelled rid)) s1
                      in Inr (Awaiting k, s2)))))"

text \<open>After the \<^verbatim>\<open>await\<close>, with the value of the promise.\<close>

definition remember :: "jsval \<Rightarrow> policy \<Rightarrow> policy" where
  "remember entry ts =
     ts\<lparr>allowedTools := (if arrayIncludes (allowedTools ts) entry then allowedTools ts
                          else allowedTools ts @ [entry]),
        disallowedTools := filter (\<lambda>e. \<not> strictEq e entry) (disallowedTools ts)\<rparr>"

definition decided :: "jsval \<Rightarrow> dispatch \<Rightarrow> permission \<times> dispatch" where
  "decided decision d =
     (if \<not> truthy decision then (Deny (JStr (str ''Permission request timed out'')), d)
      else if truthy (propOf decision ''allow'')
      then (let entry = propOf decision ''rememberEntry'';
                d' = (if truthy entry \<and> typeof entry = ''string''
                      then d\<lparr>toolsSettings := remember entry (toolsSettings d)\<rparr>
                      else d)
            in (Allow (nullish (propOf decision ''updatedInput'') JNull), d'))
      else (Deny (nullish (propOf decision ''message'') (JStr (str ''User denied tool use''))), d))"

text \<open>The suspended call resumes once its promise is resolved; until then there is
  no result.\<close>

definition resume :: "nat \<Rightarrow> dispatch state \<Rightarrow> (permission \<times> dispatch state) option" where
  "resume k s =
     (case resolved (approvals s ! k) of
        None \<Rightarrow> None
      | Some decision \<Rightarrow>
          (let (p, d') = decided decision (env s) in Some (p, s\<lparr>env := d'\<rparr>)))"

text \<open>A dispatch that has sent nothing, with a given policy and permission mode.\<close>

definition fresh :: "policy \<Rightarrow> jsval \<Rightarrow> dispatch" where
  "fresh ts mode =
     \<lparr>sent = [], boundSessionId = None, toolsSettings = ts, permissionMode = mode,
      requestedAgentId = JNull, agentId = JNull, activeSessions = [], sdkCalls = []\<rparr>"

section \<open>Session Coordinator\<close>

text \<open>
  The session that \<^verbatim>\<open>createSession\<close> returns belongs to the SDK. Of it the
  dispatch sees what \<^verbatim>\<open>await session.initialize()\<close> returns or throws, whether
  \<^verbatim>\<open>await session.send(prompt)\<close> throws, and what the iteration of
  \<^verbatim>\<open>session.stream()\<close> yields, item by item, up to its end or to an exception.
  Closing the iterator at \<^verbatim>\<open>break\<close> is taken not to throw, as are
  \<^verbatim>\<open>createSession\<close> and \<^verbatim>\<open>ws.setSessionId\<close>.
\<close>

datatype item = Yield jsval | Throw thrown

record session =
  initialize :: "thrown + jsval"
  send :: "jsstring \<Rightarrow> thrown option"
  stream :: "item list"

text \<open>A \<^verbatim>\<open>send\<close> that never throws.\<close>

definition sendOk :: "jsstring \<Rightarrow> thrown option" where
  "sendOk prompt = None"

text \<open>\<^verbatim>\<open>err instanceof Error ? err.message : String(err)\<close>\<close>

fun errorMessage :: "thrown \<Rightarrow> errtext" where
  "errorMessage TypeError = TypeErrorText"
| "errorMessage (ErrorInstance m) = Text m"
| "errorMessage (NonError v) = StringOf v"

text \<open>The \<^verbatim>\<open>catch\<close> blocks of \<^verbatim>\<open>queryLettaSDK\<close>.\<close>

definition emitError :: "thrown \<Rightarrow> dispatch \<Rightarrow> dispatch" where
  "emitError err d = emit (LettaError (errorMessage err) (agentId d)) d"

text \<open>
  \<^verbatim>\<open>for await (const msg of session.stream()) { ... }\<close>: each message is translated
  by the first branch whose \<^verbatim>\<open>msg.type\<close> fits, a message of no known type is
  skipped, \<^verbatim>\<open>result\<close> ends the loop, and an exception goes to the \<^verbatim>\<open>catch\<close>.
\<close>

fun consume :: "item list \<Rightarrow> dispatch \<Rightarrow> dispatch" where
  "consume [] d = d"
| "consume (Throw err # rest) d = emitError err d"
| "consume (Yield msg # rest) d =
     (case getProp msg ''type'' of
        Inl err \<Rightarrow> emitError err d
      | Inr t \<Rightarrow>
          if strictEq t (JStr (str ''stream_event''))
          then consume rest
                 (emit (LettaResponse (StreamEvent (propOf msg ''event'')) (agentId d)) d)
          else if strictEq t (JStr (str ''assistant''))
          then consume rest
                 (emit (LettaResponse (AssistantText (propOf msg ''content'')) (agentId d)) d)
          else if strictEq t (JStr (str ''tool_call''))
          then consume rest
                 (emit (LettaResponse
                          (ToolUse (propOf msg ''toolCallId'') (propOf msg ''toolName'')
                             (propOf msg ''toolInput''))
                          (agentId d)) d)
          else if strictEq t (JStr (str ''tool_result''))
          then consume rest
                 (emit (LettaResponse
                          (ToolResult (propOf msg ''toolCallId'') (propOf msg ''content'')
                             (truthy (propOf msg ''isError'')))
                          (agentId d)) d)
          else if strictEq t (JStr (str ''result''))
          then emit (LettaComplete (agentId d)
                       (if truthy (propOf msg ''success'') then 0 else 1)
                       (truthy (propOf msg ''success''))
                       (propOf msg ''durationMs'') (propOf msg ''totalCostUsd'')
                       (propOf msg ''conversationId'')) d
          else consume rest d)"

text \<open>\<^verbatim>\<open>(command || '').trim()\<close>: only a string has \<^verbatim>\<open>trim\<close>.\<close>

definition promptOf :: "jsval \<Rightarrow> thrown + jsstring" where
  "promptOf command =
     (case jsOr command (JStr []) of
        JStr c \<Rightarrow> Inr (trim c)
      | _ \<Rightarrow> Inl TypeError)"

text \<open>The second \<^verbatim>\<open>try\<close> block: the prompt, then the stream.\<close>

definition streaming :: "jsval \<Rightarrow> session \<Rightarrow> dispatch \<Rightarrow> dispatch" where
  "streaming command sess d =
     (case promptOf command of
        Inl err \<Rightarrow> emitError err d
      | Inr prompt \<Rightarrow>
          if prompt \<noteq> []
          then (let d1 = d\<lparr>sdkCalls := sdkCalls d @ [Send prompt]\<rparr>
                in case send sess prompt of
                     Some err \<Rightarrow> emitError err d1
                   | None \<Rightarrow> consume (stream sess) (d1\<lparr>sdkCalls := sdkCalls d1 @ [Stream]\<rparr>))
          else consume (stream sess) (d\<lparr>sdkCalls := sdkCalls d @ [Stream]\<rparr>))"

text \<open>
  From \<^verbatim>\<open>let agentId = requestedAgentId;\<close> on: the first \<^verbatim>\<open>try\<close> block, the
  check of the identity, the registration and the \<^verbatim>\<open>session-created\<close> signal.
  \<open>hasSetSessionId\<close> says whether \<^verbatim>\<open>ws.setSessionId\<close> is a function; \<open>now\<close> is
  \<^verbatim>\<open>Date.now()\<close>.
\<close>

definition initializing :: "jsval \<Rightarrow> bool \<Rightarrow> session \<Rightarrow> nat \<Rightarrow> dispatch \<Rightarrow> dispatch" where
  "initializing command hasSetSessionId sess now d0 =
     (let d = d0\<lparr>agentId := requestedAgentId d0, sdkCalls := sdkCalls d0 @ [Initialize]\<rparr>
      in case initialize sess of
           Inl err \<Rightarrow> emitError err d
         | Inr init \<Rightarrow>
             (case getProp init ''agentId'' of
                Inl err \<Rightarrow> emitError err d
              | Inr a \<Rightarrow>
                  (let d1 = d\<lparr>agentId := a\<rparr>
                   in if \<not> truthy a
                      then emit (LettaError
                                   (Text (JStr (str ''Letta SDK did not return agentId''))) JNull) d1
                      else
                        (let d2 = d1\<lparr>activeSessions := mapSet a now (activeSessions d1)\<rparr>;
                             d3 = (if hasSetSessionId then d2\<lparr>boundSessionId := Some a\<rparr>
                                   else d2);
                             d4 = emit (SessionCreated a (propOf init ''conversationId'')) d3
                         in streaming command sess d4))))"

text \<open>
  \<^verbatim>\<open>export async function queryLettaSDK(command, options = {}, ws)\<close>. An exception
  of \<^verbatim>\<open>normalizeCwd\<close> or \<^verbatim>\<open>normalizeToolsSettings\<close> leaves the function; after
  \<^verbatim>\<open>normalizeCwd\<close> has returned, \<^verbatim>\<open>options\<close> is not \<^verbatim>\<open>null\<close>.
\<close>

definition queryLettaSDK ::
  "jsval \<Rightarrow> jsval \<Rightarrow> bool \<Rightarrow> session \<Rightarrow> jsval \<Rightarrow> nat \<Rightarrow> dispatch \<Rightarrow> thrown + dispatch" where
  "queryLettaSDK command options0 hasSetSessionId sess processCwd now d =
     (let options = orDefault options0
      in case normalizeCwd options processCwd of
           Inl x \<Rightarrow> Inl x
         | Inr cwd \<Rightarrow>
             (let mode = jsOr (propOf options ''permissionMode'') (JStr (str ''default''))
              in case normalizeToolsSettings options of
                   Inl x \<Rightarrow> Inl x
                 | Inr ts \<Rightarrow>
                     (let requested = jsOr (propOf options ''sessionId'') JNull;
                          d1 = d\<lparr>toolsSettings := ts, permissionMode := mode,
                                 requestedAgentId := requested,
                                 sdkCalls := sdkCalls d @
                                   [CreateSession (jsOr requested JUndefined) cwd mode]\<rparr>
                      in Inr (initializing command hasSetSessionId sess now d1))))"

text \<open>
  The consumption loop and the authorization callback belong to one program: the
  loop works on the dispatch inside the whole state, and while it waits for the
  next message the event loop may run the callback, a resolver or a timer.
  \<open>onDispatch f\<close> is a stretch \<open>f\<close> of the loop run inside the whole state.
\<close>

definition onDispatch :: "(dispatch \<Rightarrow> dispatch) \<Rightarrow> dispatch state \<Rightarrow> dispatch state" where
  "onDispatch f s = s\<lparr>env := f (env s)\<rparr>"

section \<open>Properties of the Permission Matcher\<close>

lemma str_simps: "str [] = []" "str (c # cs) = word_of_nat (of_char c) # str cs"
  by (simp_all add: str_def)

lemma startsWith_iff: "startsWith s p \<longleftrightarrow> (\<exists>r. s = p @ r)"
  unfolding startsWith_def
  by (metis append_eq_conv_conj append_take_drop_id)

text \<open>The group \<^verbatim>\<open>(.+)\<close> followed by a literal without line terminators up to the
  end of the input captures exactly what precedes the literal, when that is not
  empty and has no line terminator.\<close>

lemma dotPlusThen_Some:
  assumes "\<forall>c\<in>set lit. \<not> lineTerminator c" and "lit \<noteq> []"
  shows "dotPlusThen lit acc s = Some p \<longleftrightarrow>
     (\<exists>q. q \<noteq> [] \<and> s = q @ lit \<and> (\<forall>c\<in>set q. \<not> lineTerminator c) \<and> p = acc @ q)"
proof (induction s arbitrary: acc p)
  case Nil
  then show ?case by simp
next
  case (Cons c cs)
  show ?case
  proof (cases "lineTerminator c")
    case True
    then show ?thesis
      by (auto simp: neq_Nil_conv)
  next
    case nl: False
    show ?thesis
    proof (cases "dotPlusThen lit (acc @ [c]) cs")
      case None
      then have no: "\<And>q. q \<noteq> [] \<Longrightarrow> (\<forall>c\<in>set q. \<not> lineTerminator c) \<Longrightarrow> cs \<noteq> q @ lit"
        using Cons.IH [of "acc @ [c]"] by fastforce
      show ?thesis
      proof
        assume "dotPlusThen lit acc (c # cs) = Some p"
        with nl None have "cs = lit" "p = acc @ [c]"
          by (auto split: if_splits)
        with nl show "\<exists>q. q \<noteq> [] \<and> c # cs = q @ lit \<and> (\<forall>c\<in>set q. \<not> lineTerminator c) \<and> p = acc @ q"
          by (intro exI [of _ "[c]"]) simp
      next
        assume "\<exists>q. q \<noteq> [] \<and> c # cs = q @ lit \<and> (\<forall>c\<in>set q. \<not> lineTerminator c) \<and> p = acc @ q"
        then obtain q where q: "q \<noteq> []" "c # cs = q @ lit" "\<forall>c\<in>set q. \<not> lineTerminator c" "p = acc @ q"
          by blast
        then obtain q' where q': "q = c # q'" "cs = q' @ lit"
          by (cases q) auto
        with no [of q'] q have "q' = []" by auto
        with q q' nl None show "dotPlusThen lit acc (c # cs) = Some p" by simp
      qed
    next
      case (Some r)
      then obtain q' where q': "q' \<noteq> []" "cs = q' @ lit" "\<forall>c\<in>set q'. \<not> lineTerminator c" "r = acc @ [c] @ q'"
        using Cons.IH [of "acc @ [c]" r] by auto
      have val: "dotPlusThen lit acc (c # cs) = Some r"
        using nl Some by simp
      show ?thesis
      proof
        assume "dotPlusThen lit acc (c # cs) = Some p"
        with val have "p = r" by simp
        with q' nl show "\<exists>q. q \<noteq> [] \<and> c # cs = q @ lit \<and> (\<forall>c\<in>set q. \<not> lineTerminator c) \<and> p = acc @ q"
          by (intro exI [of _ "c # q'"]) simp
      next
        assume "\<exists>q. q \<noteq> [] \<and> c # cs = q @ lit \<and> (\<forall>c\<in>set q. \<not> lineTerminator c) \<and> p = acc @ q"
        then obtain q where q: "q \<noteq> []" "c # cs = q @ lit" "p = acc @ q"
          by blast
        then obtain q'' where q'': "q = c # q''" "cs = q'' @ lit"
          by (cases q) auto
        with q' have "q'' = q'" by simp
        with q q'' q' val show "dotPlusThen lit acc (c # cs) = Some p" by simp
      qed
    qed
  qed
qed

lemma bashMatch_Some:
  "bashMatch e = Some p \<longleftrightarrow>
     e = str ''Bash('' @ p @ str '':*)'' \<and> p \<noteq> [] \<and> (\<forall>c\<in>set p. \<not> lineTerminator c)"
proof -
  have lit: "\<forall>c\<in>set (str '':*)''). \<not> lineTerminator c" "str '':*)'' \<noteq> []"
    by (simp_all add: str_simps lineTerminator_def)
  have len: "length (str ''Bash('') = 5"
    by (simp add: str_def)
  show ?thesis
  proof (cases "startsWith e (str ''Bash('')")
    case True
    then obtain r where r: "e = str ''Bash('' @ r"
      by (auto simp: startsWith_iff)
    then have "drop 5 e = r"
      using len by simp
    with True r show ?thesis
      unfolding bashMatch_def
      by (auto simp: dotPlusThen_Some [OF lit])
  next
    case False
    then show ?thesis
      unfolding bashMatch_def by (auto simp: startsWith_iff)
  qed
qed

lemma strictEq_JStr: "strictEq (JStr e) v \<longleftrightarrow> v = JStr e"
  by (auto simp: strictEq_def)

lemma strictEq_JStr2: "strictEq v (JStr e) \<longleftrightarrow> v = JStr e"
  by (cases v) (auto simp: strictEq_def)

lemma commandOf_cases:
  "commandOf (JStr s) = trim s"
  "commandOf (JObj r fs) = (case map_of fs (str ''command'') of Some (JStr s) \<Rightarrow> trim s | _ \<Rightarrow> [])"
  "commandOf (JArr r xs) = []"
  "commandOf JUndefined = []" "commandOf JNull = []" "commandOf (JBool b) = []"
  "commandOf (JNum n) = []" "commandOf JNaN = []"
  by (auto simp: commandOf_def split: option.splits jsval.splits)

text \<open>
  C2. The claim: for every entry, tool name and input, also a malformed or non-string
  entry, \<open>matchesToolPermission\<close> returns a boolean and never throws. On the
  entry \<^verbatim>\<open>42\<close> and the tool name \<^verbatim>\<open>'Bash'\<close> the guard \<^verbatim>\<open>!entry\<close> lets the
  entry pass, \<^verbatim>\<open>===\<close> fails, and \<^verbatim>\<open>entry.match\<close> is not a function: the call
  throws a \<^verbatim>\<open>TypeError\<close>.
\<close>

theorem matchesToolPermission_number_entry_throws:
  "matchesToolPermission (JNum 42) (JStr (str ''Bash'')) JUndefined = Inl TypeError"
  by (simp add: matchesToolPermission_def strictEq_def str_simps)

theorem matchesToolPermission_number_entry_throws_witness:
  "matchesToolPermission (JNum 42) (JStr (str ''Bash'')) JUndefined \<noteq> Inr False
   \<and> matchesToolPermission (JNum 42) (JStr (str ''Bash'')) JUndefined \<noteq> Inr True"
  using matchesToolPermission_number_entry_throws by simp

text \<open>
  C3, as amended. For every string entry, tool name and input the matcher returns a
  boolean, and it returns \<^verbatim>\<open>true\<close> exactly when the entry is not empty and either
  the tool name is the entry itself, or the tool name is \<^verbatim>\<open>Bash\<close>, the entry is
  \<^verbatim>\<open>Bash(P:*)\<close> for a non-empty prefix \<open>P\<close> without line terminators, and the
  command of the input is not empty and starts with \<open>P\<close>. The command of a string
  input is the string trimmed; of an object, its string field \<^verbatim>\<open>command\<close>
  trimmed; of any other input it is empty.
\<close>

theorem matchesToolPermission_string_entry:
  "matchesToolPermission (JStr e) toolName input =
     Inr (e \<noteq> [] \<and>
          (toolName = JStr e \<or>
           (toolName = JStr (str ''Bash'') \<and>
            (\<exists>p. e = str ''Bash('' @ p @ str '':*)'' \<and> p \<noteq> []
                 \<and> (\<forall>c\<in>set p. \<not> lineTerminator c)
                 \<and> commandOf input \<noteq> [] \<and> startsWith (commandOf input) p))))
   \<and> commandOf (JStr c) = trim c
   \<and> commandOf (JObj r fs) =
       (case map_of fs (str ''command'') of Some (JStr c') \<Rightarrow> trim c' | _ \<Rightarrow> [])
   \<and> (\<forall>v. (\<forall>c'. v \<noteq> JStr c') \<and> (\<forall>r' fs'. v \<noteq> JObj r' fs') \<longrightarrow> commandOf v = [])"
proof -
  define C where "C p \<longleftrightarrow> commandOf input \<noteq> [] \<and> startsWith (commandOf input) p" for p
  have ex: "(\<exists>p. e = str ''Bash('' @ p @ str '':*)'' \<and> p \<noteq> []
                 \<and> (\<forall>c\<in>set p. \<not> lineTerminator c)
                 \<and> commandOf input \<noteq> [] \<and> startsWith (commandOf input) p)
             \<longleftrightarrow> (\<exists>p. bashMatch e = Some p \<and> C p)"
    unfolding bashMatch_Some C_def by blast
  have bash: "truthy (JStr (str ''Bash''))" by (simp add: str_simps)
  have main: "matchesToolPermission (JStr e) toolName input =
      Inr (e \<noteq> [] \<and> (toolName = JStr e \<or> toolName = JStr (str ''Bash'')
                        \<and> (\<exists>p. bashMatch e = Some p \<and> C p)))"
  proof (cases "bashMatch e")
    case None
    then show ?thesis
      by (auto simp: matchesToolPermission_def strictEq_JStr)
  next
    case (Some p)
    then show ?thesis
      using bash
      by (auto simp: matchesToolPermission_def strictEq_JStr strictEq_JStr2 C_def Let_def)
  qed
  have other: "\<forall>v. (\<forall>c'. v \<noteq> JStr c') \<and> (\<forall>r' fs'. v \<noteq> JObj r' fs') \<longrightarrow> commandOf v = []"
  proof (intro allI impI)
    fix v assume "(\<forall>c'. v \<noteq> JStr c') \<and> (\<forall>r' fs'. v \<noteq> JObj r' fs')"
    then show "commandOf v = []"
      by (cases v) (simp_all add: commandOf_cases)
  qed
  show ?thesis
    unfolding ex using main other by (simp add: commandOf_cases)
qed

theorem matchesToolPermission_string_entry_witness:
  "matchesToolPermission (JStr (str ''Bash(ls:*)'')) (JStr (str ''Bash''))
     (JObj 0 [(str ''command'', JStr (str ''  ls -la ''))]) = Inr True
   \<and> commandOf (JObj 0 [(str ''command'', JStr (str ''  ls -la ''))]) = str ''ls -la''
   \<and> commandOf (JNum 7) = []"
proof -
  have shape: "str ''Bash(ls:*)'' = str ''Bash('' @ str ''ls'' @ str '':*)''"
    by (simp add: str_simps)
  have cmd: "commandOf (JObj 0 [(str ''command'', JStr (str ''  ls -la ''))]) = str ''ls -la''"
    by (simp add: commandOf_cases trim_def isWhiteSpace_def str_simps)
  have pre: "startsWith (str ''ls -la'') (str ''ls'')"
    by (simp add: startsWith_def str_simps)
  have nl: "\<forall>c\<in>set (str ''ls''). \<not> lineTerminator c"
    by (simp add: str_simps lineTerminator_def)
  have ne: "str ''ls'' \<noteq> []" "str ''ls -la'' \<noteq> []" "str ''Bash(ls:*)'' \<noteq> []"
    by (simp_all add: str_simps)
  note inst = matchesToolPermission_string_entry
    [of "str ''Bash(ls:*)''" "JStr (str ''Bash'')"
        "JObj 0 [(str ''command'', JStr (str ''  ls -la ''))]" "[]" 0 "[]"]
  have "matchesToolPermission (JStr (str ''Bash(ls:*)'')) (JStr (str ''Bash''))
     (JObj 0 [(str ''command'', JStr (str ''  ls -la ''))]) = Inr True"
    using inst shape cmd pre nl ne by auto
  moreover have "commandOf (JNum 7) = []"
    using inst by blast
  ultimately show ?thesis using cmd by simp
qed

text \<open>
  C3 as stated fails where the tool name is the wildcard entry itself: the entry
  \<^verbatim>\<open>Bash(ls:*)\<close> has the prefix \<^verbatim>\<open>ls\<close>, the tool name is not \<^verbatim>\<open>Bash\<close> and
  the command does not start with \<^verbatim>\<open>ls\<close>, yet the matcher returns \<^verbatim>\<open>true\<close>,
  by the comparison \<^verbatim>\<open>entry === toolName\<close> that comes first. And the only tool
  with a wildcard form is \<^verbatim>\<open>Bash\<close>: the entry \<^verbatim>\<open>Read(src:*)\<close> does not match
  the tool \<^verbatim>\<open>Read\<close> on a command that starts with \<^verbatim>\<open>src\<close>.
\<close>

theorem wildcard_entry_matches_own_name:
  "bashMatch (str ''Bash(ls:*)'') = Some (str ''ls'')
   \<and> JStr (str ''Bash(ls:*)'') \<noteq> JStr (str ''Bash'')
   \<and> \<not> startsWith (commandOf (JStr (str ''rm -rf /''))) (str ''ls'')
   \<and> matchesToolPermission (JStr (str ''Bash(ls:*)'')) (JStr (str ''Bash(ls:*)''))
        (JStr (str ''rm -rf /'')) = Inr True
   \<and> startsWith (commandOf (JStr (str ''src/a.js''))) (str ''src'')
   \<and> matchesToolPermission (JStr (str ''Read(src:*)'')) (JStr (str ''Read''))
        (JStr (str ''src/a.js'')) = Inr False"
  by (simp add: matchesToolPermission_def strictEq_def str_simps bashMatch_def
        startsWith_def lineTerminator_def commandOf_def trim_def isWhiteSpace_def)

section \<open>Properties of the Approval Gate\<close>

lemma gateInv_initial: "gateInv (initial e)"
  by (simp add: gateInv_def initial_def)

lemma finalize_unsettled:
  "\<not> settled (approvals s ! k) \<Longrightarrow>
   finalize k d s =
     s\<lparr>approvals := (approvals s)
          [k := (approvals s ! k)\<lparr>settled := True, timeout := False, resolved := Some d\<rparr>],
       pendingToolApprovals := (pendingToolApprovals s)(requestId (approvals s ! k) := None)\<rparr>"
  by (simp add: finalize_def Let_def)

lemma gateInv_finalize: "gateInv s \<Longrightarrow> k < length (approvals s) \<Longrightarrow> gateInv (finalize k d s)"
  unfolding gateInv_def finalize_def Let_def
  by (auto simp: nth_list_update)

lemma gateInv_pending:
  "gateInv s \<Longrightarrow> pendingToolApprovals s r = Some k \<Longrightarrow>
   k < length (approvals s) \<and> requestId (approvals s ! k) = r \<and> \<not> settled (approvals s ! k)"
  unfolding gateInv_def by blast

lemma gateInv_settled:
  "gateInv s \<Longrightarrow> k < length (approvals s) \<Longrightarrow>
   (settled (approvals s ! k) \<longleftrightarrow> \<not> timeout (approvals s ! k)) \<and>
   (settled (approvals s ! k) \<longleftrightarrow> resolved (approvals s ! k) \<noteq> None)"
  unfolding gateInv_def by blast

lemma gateInv_wait:
  assumes "gateInv s"
  shows "gateInv (snd (waitForToolApproval rid h s))"
proof -
  let ?n = "length (approvals s)"
  let ?a = "\<lparr>requestId = rid, onCancel = h, settled = False, timeout = True, resolved = None\<rparr>"
  let ?s = "s\<lparr>approvals := approvals s @ [?a],
              pendingToolApprovals := (pendingToolApprovals s)(rid \<mapsto> ?n)\<rparr>"
  have A: "k < length (approvals ?s) \<and> requestId (approvals ?s ! k) = r
                 \<and> \<not> settled (approvals ?s ! k)"
    if "pendingToolApprovals ?s r = Some k" for r k
  proof -
    from that consider "r = rid" "k = ?n" | "r \<noteq> rid" "pendingToolApprovals s r = Some k"
      by (auto split: if_splits)
    then show ?thesis
    proof cases
      case 1
      then show ?thesis by simp
    next
      case 2
      with gateInv_pending [OF assms, of r k] show ?thesis
        by (simp add: nth_append)
    qed
  qed
  have B: "(settled (approvals ?s ! k) \<longleftrightarrow> \<not> timeout (approvals ?s ! k)) \<and>
               (settled (approvals ?s ! k) \<longleftrightarrow> resolved (approvals ?s ! k) \<noteq> None)"
    if "k < length (approvals ?s)" for k
  proof -
    from that consider "k = ?n" | "k < ?n" by fastforce
    then show ?thesis
    proof cases
      case 1
      then show ?thesis by simp
    next
      case 2
      with gateInv_settled [OF assms, of k] show ?thesis
        by (auto simp: nth_append)
    qed
  qed
  have "gateInv ?s"
    unfolding gateInv_def using A B by blast
  then show ?thesis
    by (simp add: waitForToolApproval_def Let_def)
qed

lemma gateInv_resolve:
  assumes "gateInv s"
  shows "gateInv (resolveLettaToolApproval rid d s)"
proof (cases "\<exists>r j. rid = JStr r \<and> pendingToolApprovals s r = Some j")
  case True
  then obtain r j where rj: "rid = JStr r" "pendingToolApprovals s r = Some j" by blast
  with gateInv_pending [OF assms, of r j] have "j < length (approvals s)" by simp
  with rj assms show ?thesis
    by (simp add: resolveLettaToolApproval_def gateInv_finalize)
next
  case False
  with assms show ?thesis
    by (auto simp: resolveLettaToolApproval_def split: jsval.splits option.splits)
qed

declare step.simps(3) [simp del]

text \<open>The timer of an unsettled request fires.\<close>

lemma timer_fires:
  assumes "gateInv s" "k < length (approvals s)" "timeout (approvals s ! k)"
  shows "step (Timer k) s =
     s\<lparr>approvals := (approvals s)
          [k := (approvals s ! k)\<lparr>settled := True, timeout := False, resolved := Some JNull\<rparr>],
       pendingToolApprovals := (pendingToolApprovals s)(requestId (approvals s ! k) := None),
       env := (case onCancel (approvals s ! k) of
                 Some f \<Rightarrow> f (str ''timeout'') (env s) | None \<Rightarrow> env s)\<rparr>"
proof -
  from assms have "\<not> settled (approvals s ! k)"
    by (auto simp: gateInv_def)
  with assms(2,3) show ?thesis
    by (cases "onCancel (approvals s ! k)")
       (simp_all add: step.simps(3) timeoutCallback_def cancelled_def finalize_def Let_def)
qed

lemma timer_idle:
  "\<not> (k < length (approvals s) \<and> timeout (approvals s ! k)) \<Longrightarrow> step (Timer k) s = s"
  by (simp only: step.simps(3) if_False)

lemma gateInv_timer: "gateInv s \<Longrightarrow> gateInv (step (Timer k) s)"
proof (cases "k < length (approvals s) \<and> timeout (approvals s ! k)")
  case True
  assume inv: "gateInv s"
  show ?thesis
    unfolding timer_fires [OF inv conjunct1 [OF True] conjunct2 [OF True]]
    using inv True unfolding gateInv_def
    by (auto simp: nth_list_update)
next
  case False
  assume "gateInv s"
  with timer_idle [OF False] show ?thesis by simp
qed

lemma gateInv_step: "gateInv s \<Longrightarrow> gateInv (step e s)"
proof (cases e)
  case (Wait rid h)
  assume "gateInv s"
  with Wait show ?thesis by (simp add: gateInv_wait)
next
  case (Resolve rid d)
  assume "gateInv s"
  with Resolve show ?thesis by (simp add: gateInv_resolve)
next
  case (Timer k)
  assume "gateInv s"
  with Timer show ?thesis using gateInv_timer [of s k] by simp
qed

lemma gateInv_run: "gateInv s \<Longrightarrow> gateInv (run es s)"
  by (induction es arbitrary: s) (simp_all add: gateInv_step)

lemma length_approvals_step: "length (approvals s) \<le> length (approvals (step e s))"
proof (cases e)
  case (Wait rid h)
  then show ?thesis by (simp add: waitForToolApproval_def Let_def)
next
  case (Resolve rid d)
  then show ?thesis
    by (simp add: resolveLettaToolApproval_def finalize_def Let_def split: jsval.splits option.splits)
next
  case (Timer k)
  then show ?thesis
    by (simp add: step.simps(3) timeoutCallback_def cancelled_def finalize_def Let_def
          split: option.splits)
qed

text \<open>No event changes a settled request.\<close>

lemma settled_step:
  assumes "gateInv s" "k < length (approvals s)" "settled (approvals s ! k)"
  shows "approvals (step e s) ! k = approvals s ! k"
proof (cases e)
  case (Wait rid h)
  with assms(2) show ?thesis
    by (simp add: waitForToolApproval_def Let_def nth_append)
next
  case (Resolve rid d)
  show ?thesis
  proof (cases "\<exists>r j. rid = JStr r \<and> pendingToolApprovals s r = Some j")
    case True
    then obtain r j where rj: "rid = JStr r" "pendingToolApprovals s r = Some j" by blast
    with assms(1) have j: "j < length (approvals s)" "\<not> settled (approvals s ! j)"
      by (auto simp: gateInv_def)
    with assms(3) have "j \<noteq> k" by auto
    with Resolve rj j show ?thesis
      by (simp add: resolveLettaToolApproval_def finalize_unsettled)
  next
    case False
    with Resolve show ?thesis
      by (auto simp: resolveLettaToolApproval_def split: jsval.splits option.splits)
  qed
next
  case (Timer j)
  show ?thesis
  proof (cases "j < length (approvals s) \<and> timeout (approvals s ! j)")
    case True
    with assms have "j \<noteq> k" by (auto simp: gateInv_def)
    with Timer True show ?thesis
      unfolding Timer timer_fires [OF assms(1) conjunct1 [OF True] conjunct2 [OF True]]
      by simp
  next
    case False
    with Timer timer_idle [OF False] show ?thesis by simp
  qed
qed

lemma settled_run:
  "gateInv s \<Longrightarrow> k < length (approvals s) \<Longrightarrow> settled (approvals s ! k) \<Longrightarrow>
   approvals (run es s) ! k = approvals s ! k \<and> k < length (approvals (run es s))"
proof (induction es arbitrary: s)
  case Nil
  then show ?case by simp
next
  case (Cons e es)
  have eq: "approvals (step e s) ! k = approvals s ! k"
    using Cons.prems by (rule settled_step)
  have len: "k < length (approvals (step e s))"
    using Cons.prems(2) length_approvals_step [of s e] by simp
  have "gateInv (step e s)"
    using Cons.prems(1) by (rule gateInv_step)
  from Cons.IH [OF this len] eq Cons.prems(3) show ?case by simp
qed

lemma resolve_unknown:
  "(\<forall>r. rid = JStr r \<longrightarrow> pendingToolApprovals s r = None) \<Longrightarrow> step (Resolve rid d) s = s"
  by (auto simp: resolveLettaToolApproval_def split: jsval.splits option.splits)

lemma resolve_pending:
  assumes "gateInv s" "pendingToolApprovals s r = Some k"
  shows "step (Resolve (JStr r) d) s =
     s\<lparr>approvals := (approvals s)
          [k := (approvals s ! k)\<lparr>settled := True, timeout := False, resolved := Some d\<rparr>],
       pendingToolApprovals := (pendingToolApprovals s)(r := None)\<rparr>"
proof -
  from assms have "\<not> settled (approvals s ! k)" "requestId (approvals s ! k) = r"
    by (auto simp: gateInv_def)
  with assms(2) show ?thesis
    by (simp add: resolveLettaToolApproval_def finalize_unsettled)
qed


lemma step_settled_idle:
  assumes "gateInv s" "k < length (approvals s)" "settled (approvals s ! k)"
  shows "step (Timer k) s = s"
proof -
  from gateInv_settled [OF assms(1,2)] assms(3) have "\<not> timeout (approvals s ! k)" by simp
  then show ?thesis by (simp add: timer_idle)
qed

text \<open>
  C1. In every state \<open>s\<close> that calls of \<^verbatim>\<open>waitForToolApproval\<close> and
  \<^verbatim>\<open>resolveLettaToolApproval\<close> and timers can reach from the empty gate:
  resolving a token that is not pending (unknown, or not a string) changes nothing;
  resolving a pending token removes it from the pending set, settles its request
  with the decision, disarms the timer and does not run \<^verbatim>\<open>onCancel\<close>, and
  resolving it again or the timer changes nothing more; a timer that fires first
  runs \<^verbatim>\<open>onCancel('timeout')\<close> once, removes the token, settles the request with
  \<^verbatim>\<open>null\<close>, and resolving the token or the timer changes nothing more; and once a
  request has settled, no further events change it, nor can its timer run again.
\<close>

theorem approval_settles_at_most_once:
  assumes "s = run es (initial e0)"
  shows
    "(\<forall>rid d. (\<forall>r. rid = JStr r \<longrightarrow> pendingToolApprovals s r = None) \<longrightarrow>
        step (Resolve rid d) s = s) \<and>
     (\<forall>r k d. pendingToolApprovals s r = Some k \<longrightarrow>
        (let s' = step (Resolve (JStr r) d) s
         in pendingToolApprovals s' r = None \<and> settled (approvals s' ! k)
            \<and> \<not> timeout (approvals s' ! k) \<and> resolved (approvals s' ! k) = Some d
            \<and> env s' = env s
            \<and> (\<forall>d'. step (Resolve (JStr r) d') s' = s') \<and> step (Timer k) s' = s')) \<and>
     (\<forall>k. k < length (approvals s) \<and> timeout (approvals s ! k) \<longrightarrow>
        (let s' = step (Timer k) s; a = approvals s ! k
         in pendingToolApprovals s' (requestId a) = None \<and> settled (approvals s' ! k)
            \<and> \<not> timeout (approvals s' ! k) \<and> resolved (approvals s' ! k) = Some JNull
            \<and> env s' = (case onCancel a of Some f \<Rightarrow> f (str ''timeout'') (env s)
                                         | None \<Rightarrow> env s)
            \<and> (\<forall>d. step (Resolve (JStr (requestId a)) d) s' = s')
            \<and> step (Timer k) s' = s')) \<and>
     (\<forall>k es'. k < length (approvals s) \<and> settled (approvals s ! k) \<longrightarrow>
        (let s'' = run es' s
         in approvals s'' ! k = approvals s ! k \<and> step (Timer k) s'' = s''))"
proof -
  have inv: "gateInv s"
    unfolding assms by (rule gateInv_run [OF gateInv_initial])
  have unknown: "\<forall>rid d. (\<forall>r. rid = JStr r \<longrightarrow> pendingToolApprovals s r = None) \<longrightarrow>
        step (Resolve rid d) s = s"
    using resolve_unknown by blast
  have resolve: "let s' = step (Resolve (JStr r) d) s
         in pendingToolApprovals s' r = None \<and> settled (approvals s' ! k)
            \<and> \<not> timeout (approvals s' ! k) \<and> resolved (approvals s' ! k) = Some d
            \<and> env s' = env s
            \<and> (\<forall>d'. step (Resolve (JStr r) d') s' = s') \<and> step (Timer k) s' = s'"
    if p: "pendingToolApprovals s r = Some k" for r k d
  proof -
    let ?s = "step (Resolve (JStr r) d) s"
    note eq = resolve_pending [OF inv p, of d]
    have k: "k < length (approvals s)"
      using gateInv_pending [OF inv p] by simp
    have inv': "gateInv ?s"
      using inv by (rule gateInv_step)
    have 1: "pendingToolApprovals ?s r = None" unfolding eq by simp
    have 2: "settled (approvals ?s ! k)" "\<not> timeout (approvals ?s ! k)"
      "resolved (approvals ?s ! k) = Some d" "env ?s = env s"
      using k unfolding eq by simp_all
    have 3: "step (Resolve (JStr r) d') ?s = ?s" for d'
      using 1 by (intro resolve_unknown) simp
    have k': "k < length (approvals ?s)" using k unfolding eq by simp
    have 4: "step (Timer k) ?s = ?s"
      using inv' k' 2(1) by (rule step_settled_idle)
    show ?thesis
      unfolding Let_def using 1 2 3 4 by blast
  qed
  have timer: "let s' = step (Timer k) s; a = approvals s ! k
         in pendingToolApprovals s' (requestId a) = None \<and> settled (approvals s' ! k)
            \<and> \<not> timeout (approvals s' ! k) \<and> resolved (approvals s' ! k) = Some JNull
            \<and> env s' = (case onCancel a of Some f \<Rightarrow> f (str ''timeout'') (env s)
                                         | None \<Rightarrow> env s)
            \<and> (\<forall>d. step (Resolve (JStr (requestId a)) d) s' = s')
            \<and> step (Timer k) s' = s'"
    if k: "k < length (approvals s)" and t: "timeout (approvals s ! k)" for k
  proof -
    let ?s = "step (Timer k) s"
    let ?a = "approvals s ! k"
    note eq = timer_fires [OF inv k t]
    have inv': "gateInv ?s"
      using inv by (rule gateInv_step)
    have 1: "pendingToolApprovals ?s (requestId ?a) = None" by (simp add: eq)
    have 2: "settled (approvals ?s ! k)" "\<not> timeout (approvals ?s ! k)"
      "resolved (approvals ?s ! k) = Some JNull"
      "env ?s = (case onCancel ?a of Some f \<Rightarrow> f (str ''timeout'') (env s) | None \<Rightarrow> env s)"
      using k by (simp_all add: eq)
    have 3: "step (Resolve (JStr (requestId ?a)) d) ?s = ?s" for d
      using 1 by (intro resolve_unknown) simp
    have k': "k < length (approvals ?s)" using k by (simp add: eq)
    have 4: "step (Timer k) ?s = ?s"
      using inv' k' 2(1) by (rule step_settled_idle)
    show ?thesis
      unfolding Let_def using 1 2 3 4 by blast
  qed
  have stable: "let s'' = run es' s
         in approvals s'' ! k = approvals s ! k \<and> step (Timer k) s'' = s''"
    if k: "k < length (approvals s)" and st: "settled (approvals s ! k)" for k es'
  proof -
    note r = settled_run [OF inv k st, of es']
    have "gateInv (run es' s)"
      using inv by (rule gateInv_run)
    from step_settled_idle [OF this] r st show ?thesis
      by (simp add: Let_def)
  qed
  show ?thesis
    using unknown resolve timer stable by blast
qed

theorem approval_settles_at_most_once_witness:
  "pendingToolApprovals (run [Wait (str ''t'') (Some (\<lambda>reason n. Suc n))] (initial (0::nat)))
     (str ''t'') = Some 0
   \<and> resolved (approvals (step (Resolve (JStr (str ''t'')) (JBool True))
        (run [Wait (str ''t'') (Some (\<lambda>reason n. Suc n))] (initial (0::nat)))) ! 0)
       = Some (JBool True)
   \<and> step (Timer 0) (step (Resolve (JStr (str ''t'')) (JBool True))
        (run [Wait (str ''t'') (Some (\<lambda>reason n. Suc n))] (initial (0::nat))))
       = step (Resolve (JStr (str ''t'')) (JBool True))
        (run [Wait (str ''t'') (Some (\<lambda>reason n. Suc n))] (initial (0::nat)))
   \<and> env (step (Resolve (JStr (str ''t'')) (JBool True))
        (run [Wait (str ''t'') (Some (\<lambda>reason n. Suc n))] (initial (0::nat)))) = 0
   \<and> env (step (Timer 0)
        (run [Wait (str ''t'') (Some (\<lambda>reason n. Suc n))] (initial (0::nat)))) = 1
   \<and> step (Resolve (JStr (str ''t'')) (JBool True)) (step (Timer 0)
        (run [Wait (str ''t'') (Some (\<lambda>reason n. Suc n))] (initial (0::nat))))
       = step (Timer 0)
        (run [Wait (str ''t'') (Some (\<lambda>reason n. Suc n))] (initial (0::nat)))"
proof -
  define s where "s = run [Wait (str ''t'') (Some (\<lambda>reason n. Suc n))] (initial (0::nat))"
  note inst = approval_settles_at_most_once [OF s_def]
  have p: "pendingToolApprovals s (str ''t'') = Some 0"
    and a: "approvals s = [\<lparr>requestId = str ''t'', onCancel = Some (\<lambda>reason n. Suc n),
              settled = False, timeout = True, resolved = None\<rparr>]"
    and e: "env s = 0"
    by (simp_all add: s_def initial_def waitForToolApproval_def)
  from inst have "pendingToolApprovals s (str ''t'') = Some 0 \<longrightarrow>
        (let s' = step (Resolve (JStr (str ''t'')) (JBool True)) s
         in pendingToolApprovals s' (str ''t'') = None \<and> settled (approvals s' ! 0)
            \<and> \<not> timeout (approvals s' ! 0) \<and> resolved (approvals s' ! 0) = Some (JBool True)
            \<and> env s' = env s
            \<and> (\<forall>d'. step (Resolve (JStr (str ''t'')) d') s' = s') \<and> step (Timer 0) s' = s')"
    by blast
  with p e have r: "resolved (approvals (step (Resolve (JStr (str ''t'')) (JBool True)) s) ! 0)
       = Some (JBool True)"
    "step (Timer 0) (step (Resolve (JStr (str ''t'')) (JBool True)) s)
       = step (Resolve (JStr (str ''t'')) (JBool True)) s"
    "env (step (Resolve (JStr (str ''t'')) (JBool True)) s) = 0"
    by (simp_all add: Let_def)
  from inst have "0 < length (approvals s) \<and> timeout (approvals s ! 0) \<longrightarrow>
        (let s' = step (Timer 0) s; a = approvals s ! 0
         in pendingToolApprovals s' (requestId a) = None \<and> settled (approvals s' ! 0)
            \<and> \<not> timeout (approvals s' ! 0) \<and> resolved (approvals s' ! 0) = Some JNull
            \<and> env s' = (case onCancel a of Some f \<Rightarrow> f (str ''timeout'') (env s)
                                         | None \<Rightarrow> env s)
            \<and> (\<forall>d. step (Resolve (JStr (requestId a)) d) s' = s')
            \<and> step (Timer 0) s' = s')"
    by blast
  with a e have t: "env (step (Timer 0) s) = 1"
    "step (Resolve (JStr (str ''t'')) (JBool True)) (step (Timer 0) s) = step (Timer 0) s"
    by (simp_all add: Let_def)
  show ?thesis
    using p r t unfolding s_def by blast
qed

section \<open>Properties of the authorization callback\<close>

lemma someMatches_no_throw:
  "\<forall>e\<in>set es. \<exists>b. matchesToolPermission e t i = Inr b \<Longrightarrow>
   someMatches es t i = Inr (\<exists>e\<in>set es. matchesToolPermission e t i = Inr True)"
proof (induction es)
  case Nil
  then show ?case by simp
next
  case (Cons e es)
  then obtain b where b: "matchesToolPermission e t i = Inr b" by auto
  with Cons show ?case by (cases b) auto
qed

lemma someMatches_first:
  "\<forall>e\<in>set pre. matchesToolPermission e t i = Inr False \<Longrightarrow>
   matchesToolPermission e t i = Inr True \<Longrightarrow>
   someMatches (pre @ e # post) t i = Inr True"
  by (induction pre) auto

lemma someMatches_False_iff:
  "someMatches xs t i = Inr False \<longleftrightarrow> (\<forall>e\<in>set xs. matchesToolPermission e t i = Inr False)"
  by (induction xs) (auto split: sum.splits bool.splits)

text \<open>
  C6. Whenever \<^verbatim>\<open>skipPermissions\<close> is set, the callback returns
  \<^verbatim>\<open>{ behavior: 'allow', updatedInput: null }\<close> for every tool name and input and
  leaves the state as it was: nothing is sent, no request is registered, and the
  result does not depend on the allowed and disallowed entries.
\<close>

theorem skipPermissions_allows:
  "skipPermissions (toolsSettings (env s)) \<Longrightarrow>
   canUseTool rid toolName input s = Inr (Decided (Allow JNull), s)"
  by (simp add: canUseTool_def)


theorem skipPermissions_allows_witness:
  "canUseTool (str ''letta_1'') (JStr (str ''Bash'')) (JStr (str ''ls''))
     (initial (fresh \<lparr>allowedTools = [], disallowedTools = [JNum 42, JStr (str ''Bash'')],
                       skipPermissions = True\<rparr> (JStr (str ''default''))))
   = Inr (Decided (Allow JNull),
          initial (fresh \<lparr>allowedTools = [], disallowedTools = [JNum 42, JStr (str ''Bash'')],
                       skipPermissions = True\<rparr> (JStr (str ''default''))))"
  by (rule skipPermissions_allows) (simp add: initial_def fresh_def)

text \<open>
  C7, as amended. Whenever the permission mode is not \<^verbatim>\<open>bypassPermissions\<close>,
  \<^verbatim>\<open>skipPermissions\<close> is not set, and some disallowed entry matches the tool call
  while the entries before it return \<^verbatim>\<open>false\<close>, the callback returns a deny
  decision with the message \<^verbatim>\<open>Tool disallowed by settings\<close> and leaves the state
  as it was, whatever the allowed entries are.
\<close>

theorem disallowed_entry_denies:
  assumes "\<not> strictEq (permissionMode (env s)) (JStr (str ''bypassPermissions''))"
    and "\<not> skipPermissions (toolsSettings (env s))"
    and "disallowedTools (toolsSettings (env s)) = before @ entry # after"
    and "\<forall>e\<in>set before. matchesToolPermission e toolName input = Inr False"
    and "matchesToolPermission entry toolName input = Inr True"
  shows "canUseTool rid toolName input s =
           Inr (Decided (Deny (JStr (str ''Tool disallowed by settings''))), s)"
proof -
  have "someMatches (disallowedTools (toolsSettings (env s))) toolName input = Inr True"
    unfolding assms(3) using assms(4,5) by (rule someMatches_first)
  with assms(1,2) show ?thesis
    by (simp add: canUseTool_def Let_def)
qed

lemma matches_exact: "e \<noteq> [] \<Longrightarrow> matchesToolPermission (JStr e) (JStr e) i = Inr True"
  by (simp add: matchesToolPermission_def strictEq_def)

theorem disallowed_entry_denies_witness:
  "canUseTool (str ''letta_1'') (JStr (str ''Bash'')) (JStr (str ''ls''))
     (initial (fresh \<lparr>allowedTools = [JStr (str ''Bash'')],
                       disallowedTools = [JStr (str ''Read''), JStr (str ''Bash'')],
                       skipPermissions = False\<rparr> (JStr (str ''default''))))
   = Inr (Decided (Deny (JStr (str ''Tool disallowed by settings''))),
          initial (fresh \<lparr>allowedTools = [JStr (str ''Bash'')],
                       disallowedTools = [JStr (str ''Read''), JStr (str ''Bash'')],
                       skipPermissions = False\<rparr> (JStr (str ''default''))))"
proof (rule disallowed_entry_denies [where before = "[JStr (str ''Read'')]"
          and entry = "JStr (str ''Bash'')" and after = "[]"])
  show "\<not> strictEq (permissionMode (env (initial (fresh \<lparr>allowedTools = [JStr (str ''Bash'')],
                       disallowedTools = [JStr (str ''Read''), JStr (str ''Bash'')],
                       skipPermissions = False\<rparr> (JStr (str ''default''))))))
          (JStr (str ''bypassPermissions''))"
    by (simp add: initial_def fresh_def strictEq_def str_simps)
  show "\<forall>e\<in>set [JStr (str ''Read'')].
          matchesToolPermission e (JStr (str ''Bash'')) (JStr (str ''ls'')) = Inr False"
    by (simp add: matchesToolPermission_def strictEq_def str_simps bashMatch_def startsWith_def)
  show "matchesToolPermission (JStr (str ''Bash'')) (JStr (str ''Bash'')) (JStr (str ''ls''))
          = Inr True"
    by (simp add: matches_exact str_simps)
qed (simp_all add: initial_def fresh_def)

text \<open>
  C7 as stated fails in the permission mode \<^verbatim>\<open>bypassPermissions\<close>:
  \<^verbatim>\<open>skipPermissions\<close> is not set and the disallowed entry \<^verbatim>\<open>Bash\<close> matches the
  call, yet the callback allows it.
\<close>

theorem bypass_mode_allows_disallowed_tool:
  "\<not> skipPermissions (toolsSettings (env (initial (fresh
        \<lparr>allowedTools = [], disallowedTools = [JStr (str ''Bash'')], skipPermissions = False\<rparr>
        (JStr (str ''bypassPermissions''))))))
   \<and> matchesToolPermission (JStr (str ''Bash'')) (JStr (str ''Bash'')) (JStr (str ''ls''))
       = Inr True
   \<and> canUseTool (str ''letta_1'') (JStr (str ''Bash'')) (JStr (str ''ls''))
       (initial (fresh
          \<lparr>allowedTools = [], disallowedTools = [JStr (str ''Bash'')], skipPermissions = False\<rparr>
          (JStr (str ''bypassPermissions''))))
     = Inr (Decided (Allow JNull),
            initial (fresh
              \<lparr>allowedTools = [], disallowedTools = [JStr (str ''Bash'')],
                skipPermissions = False\<rparr>
              (JStr (str ''bypassPermissions''))))"
  by (simp add: canUseTool_def initial_def fresh_def strictEq_def matches_exact str_simps)


lemma arrayIncludes_JStr: "arrayIncludes xs (JStr r) \<longleftrightarrow> JStr r \<in> set xs"
  by (auto simp: arrayIncludes_def list_ex_iff sameValueZero_def strictEq_JStr2)

lemma remember_JStr:
  "remember (JStr r) ts =
     ts\<lparr>allowedTools := (if JStr r \<in> set (allowedTools ts) then allowedTools ts
                          else allowedTools ts @ [JStr r]),
        disallowedTools := filter (\<lambda>e. e \<noteq> JStr r) (disallowedTools ts)\<rparr>"
  by (simp add: remember_def arrayIncludes_JStr strictEq_JStr2)

lemma truthy_propOf: "truthy (propOf v k) \<Longrightarrow> truthy v"
  by (cases v) simp_all

text \<open>
  C5, as amended. When the decision has a truthy \<^verbatim>\<open>allow\<close> and a non-empty string
  \<^verbatim>\<open>rememberEntry\<close>, the callback returns allow after appending the entry to the
  allowed list (unless it is there already) and removing the entries equal to it
  from the disallowed list, and changes nothing else. Afterwards every tool call
  that the remembered entry matches, that no remaining disallowed entry matches,
  and on which the earlier allowed entries return a boolean, is allowed with the
  state left as it was: no approval request is sent.
\<close>

theorem remember_allows_matching_calls:
  assumes "truthy (propOf decision ''allow'')"
    and "propOf decision ''rememberEntry'' = JStr r" and "r \<noteq> []"
  shows "\<exists>d'. decided decision d = (Allow (nullish (propOf decision ''updatedInput'') JNull), d')
     \<and> d' = d\<lparr>toolsSettings := (toolsSettings d)
              \<lparr>allowedTools :=
                 (if JStr r \<in> set (allowedTools (toolsSettings d))
                  then allowedTools (toolsSettings d)
                  else allowedTools (toolsSettings d) @ [JStr r]),
               disallowedTools :=
                 filter (\<lambda>e. e \<noteq> JStr r) (disallowedTools (toolsSettings d))\<rparr>\<rparr>
     \<and> JStr r \<in> set (allowedTools (toolsSettings d'))
     \<and> JStr r \<notin> set (disallowedTools (toolsSettings d'))
     \<and> (\<forall>s rid toolName input.
           env s = d'
           \<and> matchesToolPermission (JStr r) toolName input = Inr True
           \<and> (\<forall>e\<in>set (disallowedTools (toolsSettings d')).
                 matchesToolPermission e toolName input = Inr False)
           \<and> (\<forall>e\<in>set (allowedTools (toolsSettings d)).
                 \<exists>b. matchesToolPermission e toolName input = Inr b)
           \<longrightarrow> canUseTool rid toolName input s = Inr (Decided (Allow JNull), s))"
proof -
  define d' where "d' = d\<lparr>toolsSettings := remember (JStr r) (toolsSettings d)\<rparr>"
  have dec: "decided decision d = (Allow (nullish (propOf decision ''updatedInput'') JNull), d')"
    using assms truthy_propOf [OF assms(1)] by (simp add: decided_def d'_def Let_def)
  have shape: "d' = d\<lparr>toolsSettings := (toolsSettings d)
              \<lparr>allowedTools :=
                 (if JStr r \<in> set (allowedTools (toolsSettings d))
                  then allowedTools (toolsSettings d)
                  else allowedTools (toolsSettings d) @ [JStr r]),
               disallowedTools :=
                 filter (\<lambda>e. e \<noteq> JStr r) (disallowedTools (toolsSettings d))\<rparr>\<rparr>"
    by (simp add: d'_def remember_JStr)
  have mem: "JStr r \<in> set (allowedTools (toolsSettings d'))"
    "JStr r \<notin> set (disallowedTools (toolsSettings d'))"
    and sub: "set (allowedTools (toolsSettings d')) \<subseteq> insert (JStr r) (set (allowedTools (toolsSettings d)))"
    by (auto simp: shape)
  have later: "canUseTool rid toolName input s = Inr (Decided (Allow JNull), s)"
    if e: "env s = d'"
      and m: "matchesToolPermission (JStr r) toolName input = Inr True"
      and dis: "\<forall>e\<in>set (disallowedTools (toolsSettings d')).
                 matchesToolPermission e toolName input = Inr False"
      and al: "\<forall>e\<in>set (allowedTools (toolsSettings d)).
                 \<exists>b. matchesToolPermission e toolName input = Inr b"
    for s rid toolName input
  proof -
    have 1: "someMatches (disallowedTools (toolsSettings d')) toolName input = Inr False"
      using dis by (simp add: someMatches_False_iff)
    have "\<forall>e\<in>set (allowedTools (toolsSettings d')).
            \<exists>b. matchesToolPermission e toolName input = Inr b"
      using al m sub by blast
    from someMatches_no_throw [OF this] mem(1) m
    have 2: "someMatches (allowedTools (toolsSettings d')) toolName input = Inr True"
      by auto
    show ?thesis
      using 1 2 by (simp add: canUseTool_def e)
  qed
  show ?thesis
    using dec shape mem later by blast
qed


theorem remember_allows_matching_calls_witness:
  "decided (JObj 1 [(str ''allow'', JBool True), (str ''rememberEntry'', JStr (str ''Bash(ls:*)''))])
     (fresh \<lparr>allowedTools = [], disallowedTools = [], skipPermissions = False\<rparr>
        (JStr (str ''default'')))
   = (Allow JNull,
      fresh \<lparr>allowedTools = [JStr (str ''Bash(ls:*)'')], disallowedTools = [],
             skipPermissions = False\<rparr> (JStr (str ''default'')))
   \<and> canUseTool (str ''letta_2'') (JStr (str ''Bash''))
        (JObj 2 [(str ''command'', JStr (str ''ls -l /tmp''))])
        (initial (fresh \<lparr>allowedTools = [JStr (str ''Bash(ls:*)'')], disallowedTools = [],
                          skipPermissions = False\<rparr> (JStr (str ''default''))))
     = Inr (Decided (Allow JNull),
            initial (fresh \<lparr>allowedTools = [JStr (str ''Bash(ls:*)'')], disallowedTools = [],
                          skipPermissions = False\<rparr> (JStr (str ''default''))))"
proof -
  let ?dec = "JObj 1 [(str ''allow'', JBool True), (str ''rememberEntry'', JStr (str ''Bash(ls:*)''))]"
  let ?d = "fresh \<lparr>allowedTools = [], disallowedTools = [], skipPermissions = False\<rparr>
        (JStr (str ''default''))"
  let ?d' = "fresh \<lparr>allowedTools = [JStr (str ''Bash(ls:*)'')], disallowedTools = [],
             skipPermissions = False\<rparr> (JStr (str ''default''))"
  let ?input = "JObj 2 [(str ''command'', JStr (str ''ls -l /tmp''))]"
  have a: "truthy (propOf ?dec ''allow'')"
    and r: "propOf ?dec ''rememberEntry'' = JStr (str ''Bash(ls:*)'')"
    and n: "str ''Bash(ls:*)'' \<noteq> []"
    and u: "nullish (propOf ?dec ''updatedInput'') JNull = JNull"
    by (simp_all add: str_simps)
  from remember_allows_matching_calls [OF a r n, of ?d]
  obtain d' where d': "decided ?dec ?d = (Allow (nullish (propOf ?dec ''updatedInput'') JNull), d')"
    and shape: "d' = ?d\<lparr>toolsSettings := (toolsSettings ?d)
              \<lparr>allowedTools :=
                 (if JStr (str ''Bash(ls:*)'') \<in> set (allowedTools (toolsSettings ?d))
                  then allowedTools (toolsSettings ?d)
                  else allowedTools (toolsSettings ?d) @ [JStr (str ''Bash(ls:*)'')]),
               disallowedTools :=
                 filter (\<lambda>e. e \<noteq> JStr (str ''Bash(ls:*)'')) (disallowedTools (toolsSettings ?d))\<rparr>\<rparr>"
    and later: "\<And>s rid toolName input.
           env s = d'
           \<and> matchesToolPermission (JStr (str ''Bash(ls:*)'')) toolName input = Inr True
           \<and> (\<forall>e\<in>set (disallowedTools (toolsSettings d')).
                 matchesToolPermission e toolName input = Inr False)
           \<and> (\<forall>e\<in>set (allowedTools (toolsSettings ?d)).
                 \<exists>b. matchesToolPermission e toolName input = Inr b)
           \<Longrightarrow> canUseTool rid toolName input s = Inr (Decided (Allow JNull), s)"
    by blast
  have eq: "d' = ?d'"
    unfolding shape by (simp add: fresh_def)
  have m: "matchesToolPermission (JStr (str ''Bash(ls:*)'')) (JStr (str ''Bash'')) ?input = Inr True"
    by (simp add: matchesToolPermission_def strictEq_def str_simps bashMatch_def
        startsWith_def lineTerminator_def commandOf_def trim_def isWhiteSpace_def)
  have "canUseTool (str ''letta_2'') (JStr (str ''Bash'')) ?input (initial ?d')
          = Inr (Decided (Allow JNull), initial ?d')"
  proof (rule later, intro conjI)
    show "env (initial ?d') = d'" by (simp add: eq initial_def)
    show "matchesToolPermission (JStr (str ''Bash(ls:*)'')) (JStr (str ''Bash'')) ?input = Inr True"
      by (rule m)
  qed (simp_all add: eq fresh_def)
  with d' u eq show ?thesis by simp
qed

text \<open>
  C5 as stated fails where another disallowed entry matches the later call: with
  \<^verbatim>\<open>Bash(rm:*)\<close> disallowed and \<^verbatim>\<open>Bash\<close> remembered, the remembered entry
  matches the call \<^verbatim>\<open>Bash\<close> with command \<^verbatim>\<open>rm -rf /\<close>, and the callback
  denies it: the disallowed entries are consulted first, and remembering removes
  only the entries equal to the remembered one.
\<close>

theorem remembered_entry_overruled_by_disallowed:
  "decided (JObj 1 [(str ''allow'', JBool True), (str ''rememberEntry'', JStr (str ''Bash''))])
     (fresh \<lparr>allowedTools = [], disallowedTools = [JStr (str ''Bash(rm:*)'')],
             skipPermissions = False\<rparr> (JStr (str ''default'')))
   = (Allow JNull,
      fresh \<lparr>allowedTools = [JStr (str ''Bash'')], disallowedTools = [JStr (str ''Bash(rm:*)'')],
             skipPermissions = False\<rparr> (JStr (str ''default'')))
   \<and> matchesToolPermission (JStr (str ''Bash'')) (JStr (str ''Bash''))
        (JObj 2 [(str ''command'', JStr (str ''rm -rf /''))]) = Inr True
   \<and> canUseTool (str ''letta_2'') (JStr (str ''Bash''))
        (JObj 2 [(str ''command'', JStr (str ''rm -rf /''))])
        (initial (fresh \<lparr>allowedTools = [JStr (str ''Bash'')],
                          disallowedTools = [JStr (str ''Bash(rm:*)'')],
                          skipPermissions = False\<rparr> (JStr (str ''default''))))
     = Inr (Decided (Deny (JStr (str ''Tool disallowed by settings''))),
            initial (fresh \<lparr>allowedTools = [JStr (str ''Bash'')],
                          disallowedTools = [JStr (str ''Bash(rm:*)'')],
                          skipPermissions = False\<rparr> (JStr (str ''default''))))"
proof -
  have 1: "decided (JObj 1 [(str ''allow'', JBool True), (str ''rememberEntry'', JStr (str ''Bash''))])
     (fresh \<lparr>allowedTools = [], disallowedTools = [JStr (str ''Bash(rm:*)'')],
             skipPermissions = False\<rparr> (JStr (str ''default'')))
   = (Allow JNull,
      fresh \<lparr>allowedTools = [JStr (str ''Bash'')], disallowedTools = [JStr (str ''Bash(rm:*)'')],
             skipPermissions = False\<rparr> (JStr (str ''default'')))"
    by (simp add: decided_def remember_def arrayIncludes_def fresh_def strictEq_def str_simps)
  have 2: "matchesToolPermission (JStr (str ''Bash'')) (JStr (str ''Bash''))
        (JObj 2 [(str ''command'', JStr (str ''rm -rf /''))]) = Inr True"
    by (simp add: matches_exact str_simps)
  have 3: "matchesToolPermission (JStr (str ''Bash(rm:*)'')) (JStr (str ''Bash''))
        (JObj 2 [(str ''command'', JStr (str ''rm -rf /''))]) = Inr True"
    by (simp add: matchesToolPermission_def strictEq_def str_simps bashMatch_def
        startsWith_def lineTerminator_def commandOf_def trim_def isWhiteSpace_def)
  have 4: "canUseTool (str ''letta_2'') (JStr (str ''Bash''))
        (JObj 2 [(str ''command'', JStr (str ''rm -rf /''))])
        (initial (fresh \<lparr>allowedTools = [JStr (str ''Bash'')],
                          disallowedTools = [JStr (str ''Bash(rm:*)'')],
                          skipPermissions = False\<rparr> (JStr (str ''default''))))
     = Inr (Decided (Deny (JStr (str ''Tool disallowed by settings''))),
            initial (fresh \<lparr>allowedTools = [JStr (str ''Bash'')],
                          disallowedTools = [JStr (str ''Bash(rm:*)'')],
                          skipPermissions = False\<rparr> (JStr (str ''default''))))"
    using 3 by (simp add: canUseTool_def initial_def fresh_def strictEq_def str_simps)
  show ?thesis using 1 2 4 by blast
qed


lemma canUseTool_Awaiting:
  assumes "canUseTool rid toolName input s = Inr (Awaiting k, s1)"
  shows "k = length (approvals s)"
    and "s1 = s\<lparr>env := emit (PermissionRequest rid toolName input
                               (jsOr (agentId (env s)) (requestedAgentId (env s)))) (env s),
               approvals := approvals s @
                 [\<lparr>requestId = rid, onCancel = Some (notifyCancelled rid), settled = False,
                   timeout = True, resolved = None\<rparr>],
               pendingToolApprovals := (pendingToolApprovals s)(rid \<mapsto> length (approvals s))\<rparr>"
  using assms
  by (auto simp: canUseTool_def Let_def waitForToolApproval_def
      split: if_splits sum.splits bool.splits)

text \<open>
  C4. Let a call of the callback suspend on a request \<open>k\<close> with token \<open>rid\<close>,
  and let \<open>s'\<close> be any later state in which that request is as it was created
  (no decision has arrived). When its timer fires, the callback of the timer first
  sends one \<^verbatim>\<open>claude-permission-cancelled\<close> with the token and the reason
  \<^verbatim>\<open>timeout\<close>, the request not yet settled, then settles the request with
  \<^verbatim>\<open>null\<close> and sends nothing more; the suspended call resumes and returns a deny
  decision with the message \<^verbatim>\<open>Permission request timed out\<close>, not an exception;
  and the timer cannot fire a second time.
\<close>

theorem timeout_cancels_then_denies:
  assumes "canUseTool rid toolName input s = Inr (Awaiting k, s1)"
    and "k < length (approvals s')" and "approvals s' ! k = approvals s1 ! k"
  shows "pendingToolApprovals s1 rid = Some k
     \<and> sent (env s1) = sent (env s) @
         [PermissionRequest rid toolName input
            (jsOr (agentId (env s)) (requestedAgentId (env s)))]
     \<and> (let armed = s'\<lparr>approvals := (approvals s')[k := (approvals s' ! k)\<lparr>timeout := False\<rparr>]\<rparr>;
             c = cancelled k armed;
             s2 = step (Timer k) s'
         in s2 = finalize k JNull c
            \<and> sent (env c) = sent (env s') @
                 [PermissionCancelled rid (str ''timeout'')
                    (jsOr (agentId (env s')) (requestedAgentId (env s')))]
            \<and> \<not> settled (approvals c ! k) \<and> resolved (approvals c ! k) = None
            \<and> settled (approvals s2 ! k) \<and> resolved (approvals s2 ! k) = Some JNull
            \<and> sent (env s2) = sent (env s') @
                 [PermissionCancelled rid (str ''timeout'')
                    (jsOr (agentId (env s')) (requestedAgentId (env s')))]
            \<and> resume k s2 = Some (Deny (JStr (str ''Permission request timed out'')), s2)
            \<and> step (Timer k) s2 = s2)"
proof -
  note aw = canUseTool_Awaiting [OF assms(1)]
  have a: "approvals s' ! k =
      \<lparr>requestId = rid, onCancel = Some (notifyCancelled rid), settled = False,
       timeout = True, resolved = None\<rparr>"
    unfolding assms(3) by (simp add: aw)
  have p: "pendingToolApprovals s1 rid = Some k"
    and r: "sent (env s1) = sent (env s) @
         [PermissionRequest rid toolName input
            (jsOr (agentId (env s)) (requestedAgentId (env s)))]"
    by (simp_all add: aw emit_def)
  define armed where
    "armed = s'\<lparr>approvals := (approvals s')[k := (approvals s' ! k)\<lparr>timeout := False\<rparr>]\<rparr>"
  define c where "c = cancelled k armed"
  define s2 where "s2 = step (Timer k) s'"
  have ak: "approvals armed ! k =
      \<lparr>requestId = rid, onCancel = Some (notifyCancelled rid), settled = False,
       timeout = False, resolved = None\<rparr>" "env armed = env s'"
    "length (approvals armed) = length (approvals s')"
    using assms(2) by (simp_all add: armed_def a)
  have cdef: "c = armed\<lparr>env := notifyCancelled rid (str ''timeout'') (env s')\<rparr>"
    by (simp add: c_def cancelled_def ak)
  have 1: "s2 = finalize k JNull c"
    using assms(2) a by (simp add: s2_def step.simps(3) timeoutCallback_def c_def armed_def)
  have 2: "sent (env c) = sent (env s') @
                 [PermissionCancelled rid (str ''timeout'')
                    (jsOr (agentId (env s')) (requestedAgentId (env s')))]"
    by (simp add: cdef notifyCancelled_def emit_def)
  have 3: "\<not> settled (approvals c ! k)" "resolved (approvals c ! k) = None"
    by (simp_all add: cdef ak)
  have 4: "settled (approvals s2 ! k)" "resolved (approvals s2 ! k) = Some JNull"
    "env s2 = env c" "\<not> timeout (approvals s2 ! k)"
    using 3 assms(2) ak(3) by (simp_all add: 1 finalize_unsettled cdef)
  have 7: "sent (env s2) = sent (env s') @
                 [PermissionCancelled rid (str ''timeout'')
                    (jsOr (agentId (env s')) (requestedAgentId (env s')))]"
    using 2 4(3) by simp
  have 5: "resume k s2 = Some (Deny (JStr (str ''Permission request timed out'')), s2)"
    by (simp add: resume_def 4 decided_def)
  have 6: "step (Timer k) s2 = s2"
    using 4(4) by (simp add: timer_idle)
  show ?thesis
    using p r 1 2 3 4 5 6 7 unfolding Let_def armed_def [symmetric] c_def [symmetric] s2_def [symmetric]
    by blast
qed

theorem timeout_cancels_then_denies_witness:
  "sent (env (step (Timer 0)
     (snd (waitForToolApproval (str ''letta_1'') (Some (notifyCancelled (str ''letta_1'')))
        (initial (emit (PermissionRequest (str ''letta_1'') (JStr (str ''Bash'')) JUndefined JNull)
           (fresh \<lparr>allowedTools = [], disallowedTools = [], skipPermissions = False\<rparr>
              (JStr (str ''default'')))))))))
   = [PermissionRequest (str ''letta_1'') (JStr (str ''Bash'')) JUndefined JNull,
      PermissionCancelled (str ''letta_1'') (str ''timeout'') JNull]
   \<and> map_option fst (resume 0 (step (Timer 0)
     (snd (waitForToolApproval (str ''letta_1'') (Some (notifyCancelled (str ''letta_1'')))
        (initial (emit (PermissionRequest (str ''letta_1'') (JStr (str ''Bash'')) JUndefined JNull)
           (fresh \<lparr>allowedTools = [], disallowedTools = [], skipPermissions = False\<rparr>
              (JStr (str ''default'')))))))))
     = Some (Deny (JStr (str ''Permission request timed out'')))"
proof -
  let ?d = "fresh \<lparr>allowedTools = [], disallowedTools = [], skipPermissions = False\<rparr>
              (JStr (str ''default''))"
  let ?s1 = "snd (waitForToolApproval (str ''letta_1'') (Some (notifyCancelled (str ''letta_1'')))
        (initial (emit (PermissionRequest (str ''letta_1'') (JStr (str ''Bash'')) JUndefined JNull) ?d)))"
  have call: "canUseTool (str ''letta_1'') (JStr (str ''Bash'')) JUndefined (initial ?d)
                = Inr (Awaiting 0, ?s1)"
    by (simp add: canUseTool_def initial_def fresh_def strictEq_def str_simps
          waitForToolApproval_def jsOr_def Let_def)
  have len: "0 < length (approvals ?s1)"
    by (simp add: waitForToolApproval_def initial_def)
  note inst = timeout_cancels_then_denies [OF call len refl]
  have e: "sent (env ?s1) = [PermissionRequest (str ''letta_1'') (JStr (str ''Bash'')) JUndefined JNull]"
    "jsOr (agentId (env ?s1)) (requestedAgentId (env ?s1)) = JNull"
    by (simp_all add: waitForToolApproval_def initial_def emit_def fresh_def jsOr_def)
  from inst [unfolded Let_def] have "sent (env (step (Timer 0) ?s1)) = sent (env ?s1) @
                 [PermissionCancelled (str ''letta_1'') (str ''timeout'')
                    (jsOr (agentId (env ?s1)) (requestedAgentId (env ?s1)))]"
    and "resume 0 (step (Timer 0) ?s1)
          = Some (Deny (JStr (str ''Permission request timed out'')), step (Timer 0) ?s1)"
    by blast+
  then show ?thesis
    by (simp add: e)
qed

section \<open>Properties of the Session Coordinator\<close>

lemma propOf_orDefault: "propOf (orDefault v) k = propOf v k"
  by (cases v) (simp_all add: orDefault_def emptyObject_def)

lemma getProp_orDefault: "v \<noteq> JNull \<Longrightarrow> getProp (orDefault v) k = Inr (propOf v k)"
  by (cases v) (simp_all add: orDefault_def emptyObject_def)

lemma propOf_jsOr_emptyObject: "propOf (jsOr v emptyObject) k = propOf v k"
  by (cases v) (simp_all add: jsOr_def emptyObject_def)

lemma normalizeCwd_options:
  "options \<noteq> JNull \<Longrightarrow>
   normalizeCwd options cwd =
     Inr (jsOr (jsOr (propOf options ''cwd'') (propOf options ''projectPath'')) cwd)"
  by (simp add: normalizeCwd_def getProp_orDefault propOf_orDefault)

lemma normalizeToolsSettings_options:
  "options \<noteq> JNull \<Longrightarrow>
   normalizeToolsSettings options =
     Inr \<lparr>allowedTools = arrayOrEmpty (propOf (propOf options ''toolsSettings'') ''allowedTools''),
          disallowedTools =
            arrayOrEmpty (propOf (propOf options ''toolsSettings'') ''disallowedTools''),
          skipPermissions = truthy (propOf (propOf options ''toolsSettings'') ''skipPermissions'')\<rparr>"
  by (simp add: normalizeToolsSettings_def getProp_orDefault propOf_jsOr_emptyObject)

lemma orDefault_not_null: "options \<noteq> JNull \<Longrightarrow> orDefault options \<noteq> JNull"
  by (simp add: orDefault_def emptyObject_def)





lemma queryLettaSDK_options:
  assumes "options \<noteq> JNull"
  shows "queryLettaSDK command options ws sess cwd now d =
     Inr (initializing command ws sess now
            (d\<lparr>toolsSettings :=
                 \<lparr>allowedTools =
                    arrayOrEmpty (propOf (propOf options ''toolsSettings'') ''allowedTools''),
                  disallowedTools =
                    arrayOrEmpty (propOf (propOf options ''toolsSettings'') ''disallowedTools''),
                  skipPermissions =
                    truthy (propOf (propOf options ''toolsSettings'') ''skipPermissions'')\<rparr>,
               permissionMode := jsOr (propOf options ''permissionMode'') (JStr (str ''default'')),
               requestedAgentId := jsOr (propOf options ''sessionId'') JNull,
               sdkCalls := sdkCalls d @
                 [CreateSession (jsOr (jsOr (propOf options ''sessionId'') JNull) JUndefined)
                    (jsOr (jsOr (propOf options ''cwd'') (propOf options ''projectPath'')) cwd)
                    (jsOr (propOf options ''permissionMode'') (JStr (str ''default'')))]\<rparr>))"
  using normalizeCwd_options [OF orDefault_not_null [OF assms], of cwd]
    normalizeToolsSettings_options [OF orDefault_not_null [OF assms]]
  by (simp add: queryLettaSDK_def propOf_orDefault Let_def)








lemma getProp_defined: "v \<noteq> JUndefined \<Longrightarrow> v \<noteq> JNull \<Longrightarrow> getProp v k = Inr (propOf v k)"
  by (cases v) simp_all

lemma getProp_truthy: "truthy (propOf v k') \<Longrightarrow> getProp v k = Inr (propOf v k)"
  by (cases v) simp_all

text \<open>
  C8. If \<^verbatim>\<open>session.initialize()\<close> throws, or returns a value whose
  \<^verbatim>\<open>agentId\<close> cannot be read or is falsy, the dispatch sends exactly one
  \<^verbatim>\<open>letta-error\<close> and returns: \<^verbatim>\<open>activeSessions\<close> is unchanged, so
  \<open>isLettaSDKSessionActive\<close> is what it was for every identity, no
  \<^verbatim>\<open>session-created\<close> is sent, \<^verbatim>\<open>ws.setSessionId\<close> is not called, and the SDK
  sees no \<^verbatim>\<open>send\<close> and no \<^verbatim>\<open>stream\<close>.
\<close>

theorem initialization_failure_emits_one_error:
  assumes "options \<noteq> JNull"
    and "(\<exists>err. initialize sess = Inl err)
         \<or> (\<exists>init. initialize sess = Inr init
               \<and> (\<forall>a. getProp init ''agentId'' = Inr a \<longrightarrow> \<not> truthy a))"
  shows "\<exists>d' e sid a c m.
       queryLettaSDK command options ws sess cwd now d = Inr d'
     \<and> sent d' = sent d @ [LettaError e sid]
     \<and> activeSessions d' = activeSessions d
     \<and> (\<forall>x. isLettaSDKSessionActive x d' = isLettaSDKSessionActive x d)
     \<and> boundSessionId d' = boundSessionId d
     \<and> sdkCalls d' = sdkCalls d @ [CreateSession a c m, Initialize]"
proof -
  define d1 where "d1 = d\<lparr>toolsSettings :=
                 \<lparr>allowedTools =
                    arrayOrEmpty (propOf (propOf options ''toolsSettings'') ''allowedTools''),
                  disallowedTools =
                    arrayOrEmpty (propOf (propOf options ''toolsSettings'') ''disallowedTools''),
                  skipPermissions =
                    truthy (propOf (propOf options ''toolsSettings'') ''skipPermissions'')\<rparr>,
               permissionMode := jsOr (propOf options ''permissionMode'') (JStr (str ''default'')),
               requestedAgentId := jsOr (propOf options ''sessionId'') JNull,
               sdkCalls := sdkCalls d @
                 [CreateSession (jsOr (jsOr (propOf options ''sessionId'') JNull) JUndefined)
                    (jsOr (jsOr (propOf options ''cwd'') (propOf options ''projectPath'')) cwd)
                    (jsOr (propOf options ''permissionMode'') (JStr (str ''default'')))]\<rparr>"
  have q: "queryLettaSDK command options ws sess cwd now d = Inr (initializing command ws sess now d1)"
    unfolding d1_def by (rule queryLettaSDK_options [OF assms(1)])
  have d1: "sent d1 = sent d" "activeSessions d1 = activeSessions d"
    "boundSessionId d1 = boundSessionId d"
    "sdkCalls d1 = sdkCalls d @
                 [CreateSession (jsOr (jsOr (propOf options ''sessionId'') JNull) JUndefined)
                    (jsOr (jsOr (propOf options ''cwd'') (propOf options ''projectPath'')) cwd)
                    (jsOr (propOf options ''permissionMode'') (JStr (str ''default'')))]"
    by (simp_all add: d1_def)
  have "\<exists>e sid. sent (initializing command ws sess now d1) = sent d1 @ [LettaError e sid]
      \<and> activeSessions (initializing command ws sess now d1) = activeSessions d1
      \<and> boundSessionId (initializing command ws sess now d1) = boundSessionId d1
      \<and> sdkCalls (initializing command ws sess now d1) = sdkCalls d1 @ [Initialize]"
    using assms(2)
  proof (elim disjE exE conjE)
    fix err assume "initialize sess = Inl err"
    then show ?thesis
      by (simp add: initializing_def emitError_def emit_def)
  next
    fix init assume i: "initialize sess = Inr init"
      and a: "\<forall>a. getProp init ''agentId'' = Inr a \<longrightarrow> \<not> truthy a"
    show ?thesis
    proof (cases "getProp init ''agentId''")
      case (Inl err)
      with i show ?thesis
        by (simp add: initializing_def emitError_def emit_def)
    next
      case (Inr v)
      with a have "\<not> truthy v" by simp
      with i Inr show ?thesis
        by (simp add: initializing_def emit_def)
    qed
  qed
  then obtain e sid where r:
    "sent (initializing command ws sess now d1) = sent d1 @ [LettaError e sid]"
    "activeSessions (initializing command ws sess now d1) = activeSessions d1"
    "boundSessionId (initializing command ws sess now d1) = boundSessionId d1"
    "sdkCalls (initializing command ws sess now d1) = sdkCalls d1 @ [Initialize]"
    by blast
  have act: "\<forall>x. isLettaSDKSessionActive x (initializing command ws sess now d1)
               = isLettaSDKSessionActive x d"
    using r(2) d1(2) by (simp add: isLettaSDKSessionActive_def)
  show ?thesis
    unfolding q using r act d1 by auto
qed

theorem initialization_failure_emits_one_error_witness:
  "\<exists>d' e sid. queryLettaSDK (JStr (str ''list files'')) JUndefined True
       \<lparr>initialize = Inl (ErrorInstance (JStr (str ''no backend''))),
        send = (\<lambda>p. None), stream = []\<rparr> (JStr (str ''/'')) 0
       (fresh \<lparr>allowedTools = [], disallowedTools = [], skipPermissions = False\<rparr> JUndefined)
       = Inr d'
     \<and> sent d' = [LettaError e sid] \<and> activeSessions d' = [] \<and> boundSessionId d' = None
     \<and> \<not> isLettaSDKSessionActive (JStr (str ''agent-1'')) d'"
proof -
  let ?sess = "\<lparr>initialize = Inl (ErrorInstance (JStr (str ''no backend''))),
        send = (\<lambda>p. None), stream = []\<rparr>"
  let ?d = "fresh \<lparr>allowedTools = [], disallowedTools = [], skipPermissions = False\<rparr> JUndefined"
  have 1: "JUndefined \<noteq> JNull" by simp
  have 2: "(\<exists>err. initialize ?sess = Inl err)
         \<or> (\<exists>init. initialize ?sess = Inr init
               \<and> (\<forall>a. getProp init ''agentId'' = Inr a \<longrightarrow> \<not> truthy a))"
    by simp
  from initialization_failure_emits_one_error [OF 1 2, of "JStr (str ''list files'')" True
      "JStr (str ''/'')" 0 ?d]
  obtain d' e sid where d': "queryLettaSDK (JStr (str ''list files'')) JUndefined True ?sess
       (JStr (str ''/'')) 0 ?d = Inr d'"
    "sent d' = sent ?d @ [LettaError e sid]" "activeSessions d' = activeSessions ?d"
    "\<forall>x. isLettaSDKSessionActive x d' = isLettaSDKSessionActive x ?d"
    "boundSessionId d' = boundSessionId ?d"
    by blast
  have "\<not> isLettaSDKSessionActive (JStr (str ''agent-1'')) ?d"
    by (simp add: isLettaSDKSessionActive_def fresh_def)
  with d' have "sent d' = [LettaError e sid]" "activeSessions d' = []" "boundSessionId d' = None"
    "\<not> isLettaSDKSessionActive (JStr (str ''agent-1'')) d'"
    by (simp_all add: fresh_def)
  with d'(1) show ?thesis by blast
qed


lemma type_names_distinct:
  "str ''result'' \<noteq> str ''stream_event''" "str ''result'' \<noteq> str ''assistant''"
  "str ''result'' \<noteq> str ''tool_call''" "str ''result'' \<noteq> str ''tool_result''"
  by (simp_all add: str_simps)

text \<open>A message that is not a terminal result is translated on its own.\<close>

lemma consume_one:
  assumes "m \<noteq> JUndefined" "m \<noteq> JNull"
    and "\<not> strictEq (propOf m ''type'') (JStr (str ''result''))"
  shows "consume (Yield m # items) d = consume items (consume [Yield m] d)"
  using assms by (simp add: getProp_defined)

lemma consume_one_sent:
  assumes "m \<noteq> JUndefined" "m \<noteq> JNull"
    and "\<not> strictEq (propOf m ''type'') (JStr (str ''result''))"
  shows "\<exists>xs. consume [Yield m] d = d\<lparr>sent := sent d @ xs\<rparr>
           \<and> (\<forall>x\<in>set xs. \<exists>c. x = LettaResponse c (agentId d)) \<and> length xs \<le> 1"
proof -
  let ?t = "propOf m ''type''"
  have g: "getProp m ''type'' = Inr ?t"
    using assms(1,2) by (rule getProp_defined)
  have one: "\<exists>xs. consume [Yield m] d = d\<lparr>sent := sent d @ xs\<rparr>
           \<and> (\<forall>x\<in>set xs. \<exists>c. x = LettaResponse c (agentId d)) \<and> length xs \<le> 1"
    if "consume [Yield m] d = emit (LettaResponse c (agentId d)) d" for c
    using that by (intro exI [of _ "[LettaResponse c (agentId d)]"]) (simp add: emit_def)
  consider (se) "strictEq ?t (JStr (str ''stream_event''))"
    | (as) "\<not> strictEq ?t (JStr (str ''stream_event''))" "strictEq ?t (JStr (str ''assistant''))"
    | (tc) "\<not> strictEq ?t (JStr (str ''stream_event''))" "\<not> strictEq ?t (JStr (str ''assistant''))"
        "strictEq ?t (JStr (str ''tool_call''))"
    | (tr) "\<not> strictEq ?t (JStr (str ''stream_event''))" "\<not> strictEq ?t (JStr (str ''assistant''))"
        "\<not> strictEq ?t (JStr (str ''tool_call''))" "strictEq ?t (JStr (str ''tool_result''))"
    | (no) "\<not> strictEq ?t (JStr (str ''stream_event''))" "\<not> strictEq ?t (JStr (str ''assistant''))"
        "\<not> strictEq ?t (JStr (str ''tool_call''))" "\<not> strictEq ?t (JStr (str ''tool_result''))"
    by blast
  then show ?thesis
  proof cases
    case se
    show ?thesis by (rule one) (simp add: g se)
  next
    case as
    show ?thesis by (rule one) (simp add: g as)
  next
    case tc
    show ?thesis by (rule one) (simp add: g tc)
  next
    case tr
    show ?thesis by (rule one) (simp add: g tr)
  next
    case no
    have "consume [Yield m] d = d"
      by (simp add: g no assms(3))
    then show ?thesis by (intro exI [of _ "[]"]) simp
  qed
qed

lemma consume_prefix:
  assumes "\<forall>m\<in>set before. m \<noteq> JUndefined \<and> m \<noteq> JNull
             \<and> \<not> strictEq (propOf m ''type'') (JStr (str ''result''))"
  shows "consume (map Yield before @ rest) d = consume rest (consume (map Yield before) d)"
  using assms
proof (induction before arbitrary: d)
  case Nil
  then show ?case by simp
next
  case (Cons m before)
  then have m: "m \<noteq> JUndefined" "m \<noteq> JNull"
    "\<not> strictEq (propOf m ''type'') (JStr (str ''result''))"
    and rest: "\<forall>m\<in>set before. m \<noteq> JUndefined \<and> m \<noteq> JNull
             \<and> \<not> strictEq (propOf m ''type'') (JStr (str ''result''))"
    by simp_all
  have "consume (map Yield (m # before) @ rest) d
          = consume (Yield m # (map Yield before @ rest)) d"
    by simp
  also have "\<dots> = consume (map Yield before @ rest) (consume [Yield m] d)"
    by (rule consume_one [OF m])
  also have "\<dots> = consume rest (consume (map Yield before) (consume [Yield m] d))"
    by (rule Cons.IH [OF rest])
  also have "consume (map Yield before) (consume [Yield m] d)
               = consume (Yield m # map Yield before) d"
    by (rule consume_one [OF m, symmetric])
  finally show ?case by (simp only: list.map)
qed

lemma consume_prefix_sent:
  assumes "\<forall>m\<in>set before. m \<noteq> JUndefined \<and> m \<noteq> JNull
             \<and> \<not> strictEq (propOf m ''type'') (JStr (str ''result''))"
  shows "\<exists>mid. consume (map Yield before) d = d\<lparr>sent := sent d @ mid\<rparr>
           \<and> (\<forall>x\<in>set mid. \<exists>c. x = LettaResponse c (agentId d))
           \<and> length mid \<le> length before"
  using assms
proof (induction before arbitrary: d)
  case Nil
  show ?case by (intro exI [of _ "[]"]) simp
next
  case (Cons m before)
  then have m: "m \<noteq> JUndefined" "m \<noteq> JNull"
    "\<not> strictEq (propOf m ''type'') (JStr (str ''result''))"
    and rest: "\<forall>m\<in>set before. m \<noteq> JUndefined \<and> m \<noteq> JNull
             \<and> \<not> strictEq (propOf m ''type'') (JStr (str ''result''))"
    by simp_all
  from consume_one_sent [OF m, of d] obtain xs where
    xs: "consume [Yield m] d = d\<lparr>sent := sent d @ xs\<rparr>"
      "\<forall>x\<in>set xs. \<exists>c. x = LettaResponse c (agentId d)" "length xs \<le> 1"
    by blast
  from Cons.IH [OF rest, of "d\<lparr>sent := sent d @ xs\<rparr>"] obtain ys where
    ys: "consume (map Yield before) (d\<lparr>sent := sent d @ xs\<rparr>)
           = d\<lparr>sent := sent d @ xs\<rparr>\<lparr>sent := sent (d\<lparr>sent := sent d @ xs\<rparr>) @ ys\<rparr>"
      "\<forall>x\<in>set ys. \<exists>c. x = LettaResponse c (agentId (d\<lparr>sent := sent d @ xs\<rparr>))"
      "length ys \<le> length before"
    by blast
  have "consume (map Yield (m # before)) d = consume (map Yield before) (d\<lparr>sent := sent d @ xs\<rparr>)"
    by (simp only: list.map consume_one [OF m, of "map Yield before" d] xs(1))
  then have "consume (map Yield (m # before)) d = d\<lparr>sent := sent d @ (xs @ ys)\<rparr>"
    by (simp only: ys(1)) simp
  moreover have "\<forall>x\<in>set (xs @ ys). \<exists>c. x = LettaResponse c (agentId d)"
    using xs(2) ys(2) by auto
  moreover have "length (xs @ ys) \<le> length (m # before)"
    using xs(3) ys(3) by simp
  ultimately show ?case by blast
qed

lemma consume_result:
  assumes "strictEq (propOf msg ''type'') (JStr (str ''result''))"
  shows "consume (Yield msg # rest) d =
     emit (LettaComplete (agentId d)
             (if truthy (propOf msg ''success'') then 0 else 1)
             (truthy (propOf msg ''success''))
             (propOf msg ''durationMs'') (propOf msg ''totalCostUsd'')
             (propOf msg ''conversationId'')) d"
proof -
  from assms have t: "propOf msg ''type'' = JStr (str ''result'')"
    by (simp add: strictEq_JStr2)
  then have "msg \<noteq> JUndefined" "msg \<noteq> JNull" by auto
  then have "getProp msg ''type'' = Inr (JStr (str ''result''))"
    using t by (simp add: getProp_defined)
  then show ?thesis
    by (simp add: t strictEq_def type_names_distinct)
qed


lemma streaming_ok:
  assumes "promptOf command = Inr prompt" and "prompt \<noteq> [] \<longrightarrow> send sess prompt = None"
  shows "streaming command sess d =
     consume (stream sess)
       (d\<lparr>sdkCalls := sdkCalls d @ (if prompt \<noteq> [] then [Send prompt, Stream] else [Stream])\<rparr>)"
  using assms by (simp add: streaming_def Let_def)

lemma initializing_ok:
  assumes "initialize sess = Inr init" and "truthy (propOf init ''agentId'')"
  shows "initializing command ws sess now d0 =
     streaming command sess
       (d0\<lparr>sdkCalls := sdkCalls d0 @ [Initialize],
           agentId := propOf init ''agentId'',
           activeSessions := mapSet (propOf init ''agentId'') now (activeSessions d0),
           boundSessionId := (if ws then Some (propOf init ''agentId'') else boundSessionId d0),
           sent := sent d0 @ [SessionCreated (propOf init ''agentId'')
                                (propOf init ''conversationId'')]\<rparr>)"
  using assms getProp_truthy [OF assms(2), of "''agentId''"]
  by (simp add: initializing_def Let_def emit_def)

text \<open>The dispatch run without interruption, up to a terminal result.\<close>

lemma dispatch_until_result:
  assumes "options \<noteq> JNull"
    and "initialize sess = Inr init" and "truthy (propOf init ''agentId'')"
    and "promptOf command = Inr prompt" and "prompt \<noteq> [] \<longrightarrow> send sess prompt = None"
    and "\<forall>m\<in>set before. m \<noteq> JUndefined \<and> m \<noteq> JNull
           \<and> \<not> strictEq (propOf m ''type'') (JStr (str ''result''))"
    and "strictEq (propOf msg ''type'') (JStr (str ''result''))"
  shows "\<exists>d' mid.
       (\<forall>rest. queryLettaSDK command options ws
                 (sess\<lparr>stream := map Yield before @ Yield msg # rest\<rparr>) cwd now d = Inr d')
     \<and> sent d' = sent d
          @ SessionCreated (propOf init ''agentId'') (propOf init ''conversationId'')
          # mid
          @ [LettaComplete (propOf init ''agentId'')
               (if truthy (propOf msg ''success'') then 0 else 1)
               (truthy (propOf msg ''success''))
               (propOf msg ''durationMs'') (propOf msg ''totalCostUsd'')
               (propOf msg ''conversationId'')]
     \<and> (\<forall>x\<in>set mid. \<exists>c. x = LettaResponse c (propOf init ''agentId''))
     \<and> length mid \<le> length before"
proof -
  let ?aid = "propOf init ''agentId''"
  define d1 where "d1 = d\<lparr>toolsSettings :=
                 \<lparr>allowedTools =
                    arrayOrEmpty (propOf (propOf options ''toolsSettings'') ''allowedTools''),
                  disallowedTools =
                    arrayOrEmpty (propOf (propOf options ''toolsSettings'') ''disallowedTools''),
                  skipPermissions =
                    truthy (propOf (propOf options ''toolsSettings'') ''skipPermissions'')\<rparr>,
               permissionMode := jsOr (propOf options ''permissionMode'') (JStr (str ''default'')),
               requestedAgentId := jsOr (propOf options ''sessionId'') JNull,
               sdkCalls := sdkCalls d @
                 [CreateSession (jsOr (jsOr (propOf options ''sessionId'') JNull) JUndefined)
                    (jsOr (jsOr (propOf options ''cwd'') (propOf options ''projectPath'')) cwd)
                    (jsOr (propOf options ''permissionMode'') (JStr (str ''default'')))]\<rparr>"
  define d4 where "d4 = d1\<lparr>sdkCalls := sdkCalls d1 @ [Initialize],
           agentId := ?aid,
           activeSessions := mapSet ?aid now (activeSessions d1),
           boundSessionId := (if ws then Some ?aid else boundSessionId d1),
           sent := sent d1 @ [SessionCreated ?aid (propOf init ''conversationId'')]\<rparr>"
  define dS where "dS = d4\<lparr>sdkCalls := sdkCalls d4 @
                           (if prompt \<noteq> [] then [Send prompt, Stream] else [Stream])\<rparr>"
  have dS: "sent dS = sent d @ [SessionCreated ?aid (propOf init ''conversationId'')]"
    "agentId dS = ?aid"
    by (simp_all add: dS_def d4_def d1_def)
  from consume_prefix_sent [OF assms(6), of dS] obtain mid where
    mid: "consume (map Yield before) dS = dS\<lparr>sent := sent dS @ mid\<rparr>"
      "\<forall>x\<in>set mid. \<exists>c. x = LettaResponse c (agentId dS)" "length mid \<le> length before"
    by blast
  define d' where "d' = emit (LettaComplete ?aid
               (if truthy (propOf msg ''success'') then 0 else 1)
               (truthy (propOf msg ''success''))
               (propOf msg ''durationMs'') (propOf msg ''totalCostUsd'')
               (propOf msg ''conversationId'')) (dS\<lparr>sent := sent dS @ mid\<rparr>)"
  have run: "queryLettaSDK command options ws
                 (sess\<lparr>stream := map Yield before @ Yield msg # rest\<rparr>) cwd now d = Inr d'"
    for rest
  proof -
    let ?sess = "sess\<lparr>stream := map Yield before @ Yield msg # rest\<rparr>"
    have i: "initialize ?sess = Inr init" and sn: "prompt \<noteq> [] \<longrightarrow> send ?sess prompt = None"
      using assms(2,5) by simp_all
    have "queryLettaSDK command options ws ?sess cwd now d
            = Inr (initializing command ws ?sess now d1)"
      unfolding d1_def by (rule queryLettaSDK_options [OF assms(1)])
    also have "initializing command ws ?sess now d1 = streaming command ?sess d4"
      unfolding d4_def by (rule initializing_ok [OF i assms(3)])
    also have "streaming command ?sess d4 = consume (stream ?sess) dS"
      unfolding dS_def by (rule streaming_ok [OF assms(4) sn])
    also have "stream ?sess = map Yield before @ Yield msg # rest"
      by simp
    also have "consume (map Yield before @ Yield msg # rest) dS
                 = consume (Yield msg # rest) (consume (map Yield before) dS)"
      by (rule consume_prefix [OF assms(6)])
    also have "\<dots> = d'"
      unfolding mid(1) d'_def consume_result [OF assms(7)] by (simp add: dS(2))
    finally show ?thesis .
  qed
  have snt: "sent d' = sent d
          @ SessionCreated ?aid (propOf init ''conversationId'')
          # mid
          @ [LettaComplete ?aid
               (if truthy (propOf msg ''success'') then 0 else 1)
               (truthy (propOf msg ''success''))
               (propOf msg ''durationMs'') (propOf msg ''totalCostUsd'')
               (propOf msg ''conversationId'')]"
    by (simp add: d'_def emit_def dS(1))
  have all: "\<forall>x\<in>set mid. \<exists>c. x = LettaResponse c ?aid"
    using mid(2) by (simp add: dS(2))
  from run have run': "\<forall>rest. queryLettaSDK command options ws
                 (sess\<lparr>stream := map Yield before @ Yield msg # rest\<rparr>) cwd now d = Inr d'"
    by (rule allI)
  show ?thesis
    by (intro exI [of _ d'] exI [of _ mid] conjI) (rule run' snt all mid(3))+
qed

text \<open>Once every approval request has settled, timers and resolvers change nothing.\<close>

lemma settled_quiet_step:
  assumes "gateInv s" "\<forall>k<length (approvals s). settled (approvals s ! k)"
    and "\<forall>rid h. e \<noteq> Wait rid h"
  shows "step e s = s"
proof (cases e)
  case (Wait rid h)
  with assms(3) show ?thesis by blast
next
  case (Resolve rid d)
  have "pendingToolApprovals s r = None" for r
  proof (cases "pendingToolApprovals s r")
    case None
    then show ?thesis .
  next
    case (Some k)
    with gateInv_pending [OF assms(1) Some] assms(2) show ?thesis by blast
  qed
  then show ?thesis
    unfolding Resolve by (intro resolve_unknown) simp
next
  case (Timer k)
  show ?thesis
  proof (cases "k < length (approvals s)")
    case True
    with assms(2) have "settled (approvals s ! k)" by simp
    with assms(1) True show ?thesis
      unfolding Timer by (rule step_settled_idle)
  next
    case False
    then show ?thesis
      unfolding Timer by (intro timer_idle) simp
  qed
qed

lemma settled_quiet_run:
  assumes "gateInv s" "\<forall>k<length (approvals s). settled (approvals s ! k)"
    and "\<forall>e\<in>set es. \<forall>rid h. e \<noteq> Wait rid h"
  shows "run es s = s"
  using assms(3)
proof (induction es)
  case Nil
  show ?case by simp
next
  case (Cons e es)
  then have "step e s = s"
    using settled_quiet_step [OF assms(1,2), of e] by simp
  with Cons show ?case by simp
qed

lemma gateInv_onDispatch: "gateInv (onDispatch f s) = gateInv s"
  by (simp add: gateInv_def onDispatch_def)

lemma result_in_state:
  assumes "strictEq (propOf msg ''type'') (JStr (str ''result''))"
  shows "onDispatch (consume (Yield msg # rest)) s =
     s\<lparr>env := emit (LettaComplete (agentId (env s))
             (if truthy (propOf msg ''success'') then 0 else 1)
             (truthy (propOf msg ''success''))
             (propOf msg ''durationMs'') (propOf msg ''totalCostUsd'')
             (propOf msg ''conversationId'')) (env s)\<rparr>"
  unfolding onDispatch_def consume_result [OF assms] ..


text \<open>
  C9, as amended. Let initialization succeed and the prompt, if any, be sent, and let
  the stream yield messages that are not results and then a message of type
  \<^verbatim>\<open>result\<close>. Run without interruption, the dispatch sends
  \<^verbatim>\<open>session-created\<close>, at most one \<^verbatim>\<open>letta-response\<close> for each earlier
  message, and last of all exactly one \<^verbatim>\<open>letta-complete\<close>, with exit code 0 if
  \<^verbatim>\<open>msg.success\<close> is truthy and 1 otherwise and with \<^verbatim>\<open>success\<close>,
  \<^verbatim>\<open>durationMs\<close>, \<^verbatim>\<open>totalCostUsd\<close> and \<^verbatim>\<open>conversationId\<close> of the message;
  what the stream would yield after the result changes nothing. In whatever state
  of the program the loop meets the result, it sends that one signal, ends, and
  leaves the approval gate as it was; and if every approval request has settled by
  then, no timer and no resolver changes the state afterwards, so nothing more is
  sent.
\<close>

theorem result_event_completes:
  assumes "options \<noteq> JNull"
    and "initialize sess = Inr init" and "truthy (propOf init ''agentId'')"
    and "promptOf command = Inr prompt" and "prompt \<noteq> [] \<longrightarrow> send sess prompt = None"
    and "\<forall>m\<in>set before. m \<noteq> JUndefined \<and> m \<noteq> JNull
           \<and> \<not> strictEq (propOf m ''type'') (JStr (str ''result''))"
    and "strictEq (propOf msg ''type'') (JStr (str ''result''))"
  shows "(\<exists>d' mid.
       (\<forall>rest. queryLettaSDK command options ws
                 (sess\<lparr>stream := map Yield before @ Yield msg # rest\<rparr>) cwd now d = Inr d')
     \<and> sent d' = sent d
          @ SessionCreated (propOf init ''agentId'') (propOf init ''conversationId'')
          # mid
          @ [LettaComplete (propOf init ''agentId'')
               (if truthy (propOf msg ''success'') then 0 else 1)
               (truthy (propOf msg ''success''))
               (propOf msg ''durationMs'') (propOf msg ''totalCostUsd'')
               (propOf msg ''conversationId'')]
     \<and> (\<forall>x\<in>set mid. \<exists>c. x = LettaResponse c (propOf init ''agentId''))
     \<and> length mid \<le> length before)
   \<and> (\<forall>s rest es.
         sent (env (onDispatch (consume (Yield msg # rest)) s))
           = sent (env s)
             @ [LettaComplete (agentId (env s))
                  (if truthy (propOf msg ''success'') then 0 else 1)
                  (truthy (propOf msg ''success''))
                  (propOf msg ''durationMs'') (propOf msg ''totalCostUsd'')
                  (propOf msg ''conversationId'')]
       \<and> approvals (onDispatch (consume (Yield msg # rest)) s) = approvals s
       \<and> pendingToolApprovals (onDispatch (consume (Yield msg # rest)) s)
           = pendingToolApprovals s
       \<and> (gateInv s \<and> (\<forall>k<length (approvals s). settled (approvals s ! k))
            \<and> (\<forall>e\<in>set es. \<forall>rid h. e \<noteq> Wait rid h)
           \<longrightarrow> run es (onDispatch (consume (Yield msg # rest)) s)
                 = onDispatch (consume (Yield msg # rest)) s))"
proof -
  have loop: "sent (env (onDispatch (consume (Yield msg # rest)) s))
           = sent (env s)
             @ [LettaComplete (agentId (env s))
                  (if truthy (propOf msg ''success'') then 0 else 1)
                  (truthy (propOf msg ''success''))
                  (propOf msg ''durationMs'') (propOf msg ''totalCostUsd'')
                  (propOf msg ''conversationId'')]
       \<and> approvals (onDispatch (consume (Yield msg # rest)) s) = approvals s
       \<and> pendingToolApprovals (onDispatch (consume (Yield msg # rest)) s)
           = pendingToolApprovals s
       \<and> (gateInv s \<and> (\<forall>k<length (approvals s). settled (approvals s ! k))
            \<and> (\<forall>e\<in>set es. \<forall>rid h. e \<noteq> Wait rid h)
           \<longrightarrow> run es (onDispatch (consume (Yield msg # rest)) s)
                 = onDispatch (consume (Yield msg # rest)) s)"
    for s :: "dispatch state" and rest es
  proof -
    let ?s = "onDispatch (consume (Yield msg # rest)) s"
    have a: "approvals ?s = approvals s" "pendingToolApprovals ?s = pendingToolApprovals s"
      by (simp_all add: onDispatch_def)
    have snt: "sent (env ?s) = sent (env s)
             @ [LettaComplete (agentId (env s))
                  (if truthy (propOf msg ''success'') then 0 else 1)
                  (truthy (propOf msg ''success''))
                  (propOf msg ''durationMs'') (propOf msg ''totalCostUsd'')
                  (propOf msg ''conversationId'')]"
      unfolding result_in_state [OF assms(7)] by (simp add: emit_def)
    have quiet: "run es ?s = ?s"
      if "gateInv s \<and> (\<forall>k<length (approvals s). settled (approvals s ! k))
            \<and> (\<forall>e\<in>set es. \<forall>rid h. e \<noteq> Wait rid h)"
    proof (rule settled_quiet_run)
      show "gateInv ?s" using that by (simp add: gateInv_onDispatch)
      show "\<forall>k<length (approvals ?s). settled (approvals ?s ! k)"
        using that unfolding a by blast
      show "\<forall>e\<in>set es. \<forall>rid h. e \<noteq> Wait rid h" using that by blast
    qed
    from quiet have quiet': "gateInv s \<and> (\<forall>k<length (approvals s). settled (approvals s ! k))
            \<and> (\<forall>e\<in>set es. \<forall>rid h. e \<noteq> Wait rid h)
           \<longrightarrow> run es ?s = ?s"
      by (rule impI)
    show ?thesis
      by (intro conjI) (rule snt a quiet')+
  qed
  then have loop': "\<forall>s rest es.
         sent (env (onDispatch (consume (Yield msg # rest)) s))
           = sent (env s)
             @ [LettaComplete (agentId (env s))
                  (if truthy (propOf msg ''success'') then 0 else 1)
                  (truthy (propOf msg ''success''))
                  (propOf msg ''durationMs'') (propOf msg ''totalCostUsd'')
                  (propOf msg ''conversationId'')]
       \<and> approvals (onDispatch (consume (Yield msg # rest)) s) = approvals s
       \<and> pendingToolApprovals (onDispatch (consume (Yield msg # rest)) s)
           = pendingToolApprovals s
       \<and> (gateInv s \<and> (\<forall>k<length (approvals s). settled (approvals s ! k))
            \<and> (\<forall>e\<in>set es. \<forall>rid h. e \<noteq> Wait rid h)
           \<longrightarrow> run es (onDispatch (consume (Yield msg # rest)) s)
                 = onDispatch (consume (Yield msg # rest)) s)"
    by (intro allI)
  show ?thesis
    by (rule conjI [OF dispatch_until_result [OF assms] loop'])
qed


theorem result_event_completes_witness:
  "(\<exists>d' mid.
      queryLettaSDK (JStr (str ''list files'')) JUndefined True
        \<lparr>initialize = Inr (JObj 1 [(str ''agentId'', JStr (str ''agent-1''))]),
         send = (\<lambda>p. None),
         stream = [Yield (JObj 2 [(str ''type'', JStr (str ''assistant''))]),
                   Yield (JObj 3 [(str ''type'', JStr (str ''result'')),
                                  (str ''success'', JBool True)]),
                   Yield (JObj 4 [(str ''type'', JStr (str ''assistant''))])]\<rparr>
        (JStr (str ''/'')) 0
        (fresh \<lparr>allowedTools = [], disallowedTools = [], skipPermissions = False\<rparr> JUndefined)
      = Inr d'
    \<and> sent d' = SessionCreated (JStr (str ''agent-1'')) JUndefined # mid
                 @ [LettaComplete (JStr (str ''agent-1'')) 0 True JUndefined JUndefined JUndefined]
    \<and> length mid \<le> 1)
   \<and> sent (env (onDispatch
         (consume [Yield (JObj 3 [(str ''type'', JStr (str ''result'')),
                                  (str ''success'', JBool True)])])
         (run [Wait (str ''letta_1'') (Some (notifyCancelled (str ''letta_1''))),
               Resolve (JStr (str ''letta_1'')) (JBool True)]
            (initial (fresh \<lparr>allowedTools = [], disallowedTools = [],
                              skipPermissions = False\<rparr> JUndefined)))))
       = [LettaComplete JNull 0 True JUndefined JUndefined JUndefined]
   \<and> run [Timer 0, Resolve (JStr (str ''letta_1'')) (JBool False)]
        (onDispatch
           (consume [Yield (JObj 3 [(str ''type'', JStr (str ''result'')),
                                    (str ''success'', JBool True)])])
           (run [Wait (str ''letta_1'') (Some (notifyCancelled (str ''letta_1''))),
                 Resolve (JStr (str ''letta_1'')) (JBool True)]
              (initial (fresh \<lparr>allowedTools = [], disallowedTools = [],
                                skipPermissions = False\<rparr> JUndefined))))
       = onDispatch
           (consume [Yield (JObj 3 [(str ''type'', JStr (str ''result'')),
                                    (str ''success'', JBool True)])])
           (run [Wait (str ''letta_1'') (Some (notifyCancelled (str ''letta_1''))),
                 Resolve (JStr (str ''letta_1'')) (JBool True)]
              (initial (fresh \<lparr>allowedTools = [], disallowedTools = [],
                                skipPermissions = False\<rparr> JUndefined)))"
proof -
  let ?init = "JObj 1 [(str ''agentId'', JStr (str ''agent-1''))]"
  let ?m1 = "JObj 2 [(str ''type'', JStr (str ''assistant''))]"
  let ?m2 = "JObj 3 [(str ''type'', JStr (str ''result'')), (str ''success'', JBool True)]"
  let ?m3 = "JObj 4 [(str ''type'', JStr (str ''assistant''))]"
  let ?sess = "\<lparr>initialize = Inr ?init, send = (\<lambda>p. None), stream = []\<rparr>"
  let ?d = "fresh \<lparr>allowedTools = [], disallowedTools = [], skipPermissions = False\<rparr> JUndefined"
  let ?S = "run [Wait (str ''letta_1'') (Some (notifyCancelled (str ''letta_1''))),
                 Resolve (JStr (str ''letta_1'')) (JBool True)] (initial ?d)"
  let ?es = "[Timer 0, Resolve (JStr (str ''letta_1'')) (JBool False)] :: dispatch event list"
  have 1: "JUndefined \<noteq> JNull" by simp
  have 2: "initialize ?sess = Inr ?init" by simp
  have 3: "truthy (propOf ?init ''agentId'')" by (simp add: str_simps)
  have 4: "promptOf (JStr (str ''list files'')) = Inr (str ''list files'')"
    by (simp add: promptOf_def jsOr_def str_simps trim_def isWhiteSpace_def)
  have 5: "str ''list files'' \<noteq> [] \<longrightarrow> send ?sess (str ''list files'') = None" by simp
  have 6: "\<forall>m\<in>set [?m1]. m \<noteq> JUndefined \<and> m \<noteq> JNull
           \<and> \<not> strictEq (propOf m ''type'') (JStr (str ''result''))"
    by (simp add: str_simps strictEq_def)
  have 7: "strictEq (propOf ?m2 ''type'') (JStr (str ''result''))"
    by (simp add: str_simps strictEq_def)
  note inst = result_event_completes [OF 1 2 3 4 5 6 7, of True "JStr (str ''/'')" 0 ?d]
  from inst obtain d' mid where r:
    "\<forall>rest. queryLettaSDK (JStr (str ''list files'')) JUndefined True
                 (?sess\<lparr>stream := map Yield [?m1] @ Yield ?m2 # rest\<rparr>) (JStr (str ''/'')) 0 ?d = Inr d'"
    "sent d' = sent ?d
          @ SessionCreated (propOf ?init ''agentId'') (propOf ?init ''conversationId'')
          # mid
          @ [LettaComplete (propOf ?init ''agentId'')
               (if truthy (propOf ?m2 ''success'') then 0 else 1)
               (truthy (propOf ?m2 ''success''))
               (propOf ?m2 ''durationMs'') (propOf ?m2 ''totalCostUsd'')
               (propOf ?m2 ''conversationId'')]"
    "length mid \<le> length [?m1]"
    by blast
  from r(1) have a: "queryLettaSDK (JStr (str ''list files'')) JUndefined True
                 (?sess\<lparr>stream := map Yield [?m1] @ Yield ?m2 # [Yield ?m3]\<rparr>) (JStr (str ''/'')) 0 ?d = Inr d'"
    by (rule spec)
  have b: "sent d' = SessionCreated (JStr (str ''agent-1'')) JUndefined # mid
                 @ [LettaComplete (JStr (str ''agent-1'')) 0 True JUndefined JUndefined JUndefined]"
    using r(2) by (simp add: str_simps fresh_def)
  have c: "length mid \<le> 1" using r(3) by simp
  from a have a': "queryLettaSDK (JStr (str ''list files'')) JUndefined True
        \<lparr>initialize = Inr ?init, send = (\<lambda>p. None), stream = [Yield ?m1, Yield ?m2, Yield ?m3]\<rparr>
        (JStr (str ''/'')) 0 ?d = Inr d'"
    by simp
  have first: "\<exists>d' mid.
      queryLettaSDK (JStr (str ''list files'')) JUndefined True
        \<lparr>initialize = Inr ?init, send = (\<lambda>p. None), stream = [Yield ?m1, Yield ?m2, Yield ?m3]\<rparr>
        (JStr (str ''/'')) 0 ?d = Inr d'
    \<and> sent d' = SessionCreated (JStr (str ''agent-1'')) JUndefined # mid
                 @ [LettaComplete (JStr (str ''agent-1'')) 0 True JUndefined JUndefined JUndefined]
    \<and> length mid \<le> 1"
    using a' b c by blast
  have S: "approvals ?S = [\<lparr>requestId = str ''letta_1'',
                             onCancel = Some (notifyCancelled (str ''letta_1'')),
                             settled = True, timeout = False, resolved = Some (JBool True)\<rparr>]"
    "sent (env ?S) = []" "agentId (env ?S) = JNull"
    by (simp_all add: initial_def waitForToolApproval_def resolveLettaToolApproval_def
          finalize_def fresh_def)
  have inv: "gateInv ?S"
    by (rule gateInv_run [OF gateInv_initial])
  have hyp: "gateInv ?S \<and> (\<forall>k<length (approvals ?S). settled (approvals ?S ! k))
            \<and> (\<forall>e\<in>set ?es. \<forall>rid h. e \<noteq> Wait rid h)"
  proof (intro conjI)
    show "gateInv ?S" by (rule inv)
    show "\<forall>k<length (approvals ?S). settled (approvals ?S ! k)"
      unfolding S(1) by simp
    show "\<forall>e\<in>set ?es. \<forall>rid h. e \<noteq> Wait rid h" by simp
  qed
  from inst have loop:
    "sent (env (onDispatch (consume (Yield ?m2 # [])) ?S))
           = sent (env ?S)
             @ [LettaComplete (agentId (env ?S))
                  (if truthy (propOf ?m2 ''success'') then 0 else 1)
                  (truthy (propOf ?m2 ''success''))
                  (propOf ?m2 ''durationMs'') (propOf ?m2 ''totalCostUsd'')
                  (propOf ?m2 ''conversationId'')]"
    "gateInv ?S \<and> (\<forall>k<length (approvals ?S). settled (approvals ?S ! k))
            \<and> (\<forall>e\<in>set ?es. \<forall>rid h. e \<noteq> Wait rid h)
           \<longrightarrow> run ?es (onDispatch (consume (Yield ?m2 # [])) ?S)
                 = onDispatch (consume (Yield ?m2 # [])) ?S"
    by blast+
  have second: "sent (env (onDispatch (consume [Yield ?m2]) ?S))
       = [LettaComplete JNull 0 True JUndefined JUndefined JUndefined]"
    unfolding loop(1) S(2,3) by (simp add: str_simps)
  have third: "run ?es (onDispatch (consume [Yield ?m2]) ?S) = onDispatch (consume [Yield ?m2]) ?S"
    using loop(2) hyp by (rule mp)
  show ?thesis
    by (intro conjI) (rule first second third)+
qed

text \<open>
  C9 as stated fails when an approval request is still pending at the result: the
  callback has sent its request and waits, the loop meets the result and sends
  \<^verbatim>\<open>letta-complete\<close>, and nothing at the \<^verbatim>\<open>break\<close> clears the timer of the
  request; when it fires, \<^verbatim>\<open>claude-permission-cancelled\<close> is sent after the
  completion signal.
\<close>

theorem pending_approval_cancelled_after_completion:
  "map_sum id sent
     (queryLettaSDK JUndefined JUndefined False
        \<lparr>initialize = Inr (JObj 1 [(str ''agentId'', JStr (str ''agent-1''))]),
         send = sendOk,
         stream = [Yield (JObj 2 [(str ''type'', JStr (str ''tool_call'')),
                                  (str ''toolName'', JStr (str ''Bash''))]),
                   Yield (JObj 3 [(str ''type'', JStr (str ''result'')),
                                  (str ''success'', JBool True)])]\<rparr>
        JNull 0
        (fresh \<lparr>allowedTools = [], disallowedTools = [], skipPermissions = False\<rparr> JUndefined))
   = Inr [SessionCreated (JStr (str ''agent-1'')) JUndefined,
          LettaResponse (ToolUse JUndefined (JStr (str ''Bash'')) JUndefined) (JStr (str ''agent-1'')),
          LettaComplete (JStr (str ''agent-1'')) 0 True JUndefined JUndefined JUndefined]
   \<and> map_sum id fst
       (canUseTool (str ''letta_1'') (JStr (str ''Bash'')) JUndefined
          (initial (projr
             (queryLettaSDK JUndefined JUndefined False
                \<lparr>initialize = Inr (JObj 1 [(str ''agentId'', JStr (str ''agent-1''))]),
                 send = sendOk,
                 stream = [Yield (JObj 2 [(str ''type'', JStr (str ''tool_call'')),
                                          (str ''toolName'', JStr (str ''Bash''))])]\<rparr>
                JNull 0
                (fresh \<lparr>allowedTools = [], disallowedTools = [], skipPermissions = False\<rparr>
                   JUndefined)))))
     = Inr (Awaiting 0)
   \<and> sent (env (step (Timer 0)
       (onDispatch
          (consume [Yield (JObj 3 [(str ''type'', JStr (str ''result'')),
                                   (str ''success'', JBool True)])])
          (snd (projr
             (canUseTool (str ''letta_1'') (JStr (str ''Bash'')) JUndefined
                (initial (projr
                   (queryLettaSDK JUndefined JUndefined False
                      \<lparr>initialize = Inr (JObj 1 [(str ''agentId'', JStr (str ''agent-1''))]),
                       send = sendOk,
                       stream = [Yield (JObj 2 [(str ''type'', JStr (str ''tool_call'')),
                                                (str ''toolName'', JStr (str ''Bash''))])]\<rparr>
                      JNull 0
                      (fresh \<lparr>allowedTools = [], disallowedTools = [],
                               skipPermissions = False\<rparr> JUndefined))))))))))
     = [SessionCreated (JStr (str ''agent-1'')) JUndefined,
        LettaResponse (ToolUse JUndefined (JStr (str ''Bash'')) JUndefined) (JStr (str ''agent-1'')),
        PermissionRequest (str ''letta_1'') (JStr (str ''Bash'')) JUndefined (JStr (str ''agent-1'')),
        LettaComplete (JStr (str ''agent-1'')) 0 True JUndefined JUndefined JUndefined,
        PermissionCancelled (str ''letta_1'') (str ''timeout'') (JStr (str ''agent-1''))]"
proof -
  let ?init = "JObj 1 [(str ''agentId'', JStr (str ''agent-1''))]"
  let ?tc = "JObj 2 [(str ''type'', JStr (str ''tool_call'')), (str ''toolName'', JStr (str ''Bash''))]"
  let ?res = "JObj 3 [(str ''type'', JStr (str ''result'')), (str ''success'', JBool True)]"
  let ?d0 = "fresh \<lparr>allowedTools = [], disallowedTools = [], skipPermissions = False\<rparr> JUndefined"
  let ?aid = "JStr (str ''agent-1'')"
  let ?rid = "str ''letta_1''"
  let ?created = "SessionCreated ?aid JUndefined"
  let ?use = "LettaResponse (ToolUse JUndefined (JStr (str ''Bash'')) JUndefined) ?aid"
  let ?done = "LettaComplete ?aid 0 True JUndefined JUndefined JUndefined"
  have u: "JUndefined \<noteq> JNull" by simp
  have pr: "promptOf JUndefined = Inr []"
    by (simp add: promptOf_def jsOr_def trim_def)
  have tc: "consume [Yield ?tc] d = emit (LettaResponse (ToolUse JUndefined (JStr (str ''Bash'')) JUndefined) (agentId d)) d" for d
    by (simp add: str_simps strictEq_def)
  have rs: "strictEq (propOf ?res ''type'') (JStr (str ''result''))"
    by (simp add: str_simps strictEq_def)
  have res: "consume (Yield ?res # rest) d = emit (LettaComplete (agentId d) 0 True JUndefined JUndefined JUndefined) d" for d rest
    unfolding consume_result [OF rs] by (simp add: str_simps)
  have start: "queryLettaSDK JUndefined JUndefined False
        \<lparr>initialize = Inr ?init, send = sendOk, stream = items\<rparr> JNull 0 ?d0
      = Inr (consume items
          (?d0\<lparr>toolsSettings := \<lparr>allowedTools = [], disallowedTools = [], skipPermissions = False\<rparr>,
                permissionMode := JStr (str ''default''), requestedAgentId := JNull,
                sdkCalls := [CreateSession JUndefined JNull (JStr (str ''default'')), Initialize, Stream],
                agentId := ?aid, activeSessions := [(?aid, 0)],
                sent := [?created]\<rparr>))" for items
    unfolding queryLettaSDK_options [OF u]
    by (simp add: initializing_def streaming_def pr Let_def emit_def str_simps
          arrayOrEmpty_def jsOr_def fresh_def)
  define dA where "dA = ?d0\<lparr>toolsSettings := \<lparr>allowedTools = [], disallowedTools = [], skipPermissions = False\<rparr>,
                permissionMode := JStr (str ''default''), requestedAgentId := JNull,
                sdkCalls := [CreateSession JUndefined JNull (JStr (str ''default'')), Initialize, Stream],
                agentId := ?aid, activeSessions := [(?aid, 0)],
                sent := [?created, ?use]\<rparr>"
  have full: "queryLettaSDK JUndefined JUndefined False
        \<lparr>initialize = Inr ?init, send = sendOk, stream = [Yield ?tc, Yield ?res]\<rparr> JNull 0 ?d0
      = Inr (emit ?done dA)"
    unfolding start by (simp add: consume_one [of ?tc] tc res strictEq_def str_simps emit_def dA_def)
  have part: "queryLettaSDK JUndefined JUndefined False
        \<lparr>initialize = Inr ?init, send = sendOk, stream = [Yield ?tc]\<rparr> JNull 0 ?d0
      = Inr dA"
    unfolding start tc by (simp add: emit_def dA_def)
  define s1 where "s1 = snd (waitForToolApproval ?rid (Some (notifyCancelled ?rid))
       ((initial dA)\<lparr>env := emit (PermissionRequest ?rid (JStr (str ''Bash'')) JUndefined ?aid) dA\<rparr>))"
  have call: "canUseTool ?rid (JStr (str ''Bash'')) JUndefined (initial dA) = Inr (Awaiting 0, s1)"
    by (simp add: canUseTool_def initial_def dA_def fresh_def strictEq_def str_simps
          waitForToolApproval_def jsOr_def Let_def s1_def)
  have s1: "approvals s1 = [\<lparr>requestId = ?rid, onCancel = Some (notifyCancelled ?rid),
                             settled = False, timeout = True, resolved = None\<rparr>]"
    "sent (env s1) = [?created, ?use, PermissionRequest ?rid (JStr (str ''Bash'')) JUndefined ?aid]"
    "agentId (env s1) = ?aid"
    by (simp_all add: s1_def waitForToolApproval_def initial_def emit_def dA_def)
  have fin: "sent (env (step (Timer 0) (onDispatch (consume [Yield ?res]) s1)))
      = [?created, ?use, PermissionRequest ?rid (JStr (str ''Bash'')) JUndefined ?aid, ?done,
         PermissionCancelled ?rid (str ''timeout'') ?aid]"
    unfolding res
    by (simp add: onDispatch_def s1 step.simps(3) timeoutCallback_def cancelled_def finalize_def
          notifyCancelled_def emit_def jsOr_def str_simps Let_def)
  have 1: "map_sum id sent (queryLettaSDK JUndefined JUndefined False
        \<lparr>initialize = Inr ?init, send = sendOk, stream = [Yield ?tc, Yield ?res]\<rparr> JNull 0 ?d0)
      = Inr [?created, ?use, ?done]"
    unfolding full by (simp add: emit_def dA_def)
  have 2: "map_sum id fst (canUseTool ?rid (JStr (str ''Bash'')) JUndefined (initial (projr
        (queryLettaSDK JUndefined JUndefined False
        \<lparr>initialize = Inr ?init, send = sendOk, stream = [Yield ?tc]\<rparr> JNull 0 ?d0))))
      = Inr (Awaiting 0)"
    unfolding part by (simp add: call)
  have 3: "sent (env (step (Timer 0) (onDispatch (consume [Yield ?res])
       (snd (projr (canUseTool ?rid (JStr (str ''Bash'')) JUndefined (initial (projr
        (queryLettaSDK JUndefined JUndefined False
        \<lparr>initialize = Inr ?init, send = sendOk, stream = [Yield ?tc]\<rparr> JNull 0 ?d0)))))))))
      = [?created, ?use, PermissionRequest ?rid (JStr (str ''Bash'')) JUndefined ?aid, ?done,
         PermissionCancelled ?rid (str ''timeout'') ?aid]"
    unfolding part by (simp only: call sum.sel snd_conv fin)
  show ?thesis
    by (intro conjI) (rule 1 2 3)+
qed

end
